theory Spec2Isabelle
  imports Main "HOL-Library.AList"
begin

section \<open>Python values, dictionaries and exceptions\<close>

text \<open>
  The serializers of \<^verbatim>\<open>serializers.py\<close> and \<^verbatim>\<open>restframework_sassan/serializers.py\<close>
  are glue code between Django's object-relational mapper and the serializer base classes
  of the REST framework. The values they handle are Python values: validated payloads are
  dictionaries from field names to values, model instances are opaque objects.
  A dictionary is an association list with the dictionary operations of \<open>AList\<close>
  (\<open>update\<close> keeps the position of a key that is already there, as a Python dictionary
  does). Strings are ASCII. A floating-point number is infinite, not a number, or finite:
  \<open>Finite m e\<close> is \<open>m * 2 ^ e\<close>. \<open>VObj\<close> is an object that is none of the others and has
  no conversion to a number, such as a model instance, a queryset or a manager.
\<close>

datatype pyfloat = Finite int int | Infinity bool | NaN

datatype pyval =
    VNone
  | VBool bool
  | VInt int
  | VFloat pyfloat
  | VStr string
  | VList "pyval list"
  | VDict "(string \<times> pyval) list"
  | VObj nat

type_synonym pydict = "(string \<times> pyval) list"

datatype error =
    ValidationError string
  | KeyError
  | ValueError
  | TypeError
  | OverflowError
  | AttributeError
  | DoesNotExist
  | Raised string

text \<open>\<^verbatim>\<open>key in d\<close>, \<^verbatim>\<open>d[key]\<close> and \<^verbatim>\<open>d.pop(key)\<close> on a dictionary.\<close>

definition dict_contains :: "pydict \<Rightarrow> string \<Rightarrow> bool" where
  "dict_contains d k = (map_of d k \<noteq> None)"

definition dict_getitem :: "pydict \<Rightarrow> string \<Rightarrow> error + pyval" where
  "dict_getitem d k = (case map_of d k of None \<Rightarrow> Inl KeyError | Some v \<Rightarrow> Inr v)"

definition dict_pop :: "pydict \<Rightarrow> string \<Rightarrow> error + (pyval \<times> pydict)" where
  "dict_pop d k = (case map_of d k of None \<Rightarrow> Inl KeyError | Some v \<Rightarrow> Inr (v, AList.delete k d))"

subsection \<open>The builtin \<^verbatim>\<open>int\<close>\<close>

definition is_space :: "char \<Rightarrow> bool" where
  "is_space c = (c \<in> set [CHR 0x20, CHR 0x09, CHR 0x0A, CHR 0x0B, CHR 0x0C, CHR 0x0D])"

definition is_digit :: "char \<Rightarrow> bool" where
  "is_digit c = (c \<in> set ''0123456789'')"

definition digit_val :: "char \<Rightarrow> nat" where
  "digit_val c = of_char c - 48"

text \<open>
  Decimal digits, with single underscores allowed between digits. The flag says that
  the previous character was a digit.
\<close>

fun parse_digits :: "bool \<Rightarrow> nat \<Rightarrow> string \<Rightarrow> nat option" where
  "parse_digits after_digit acc [] = (if after_digit then Some acc else None)"
| "parse_digits after_digit acc (c # cs) =
     (if is_digit c then parse_digits True (acc * 10 + digit_val c) cs
      else if c = CHR ''_'' \<and> after_digit then parse_digits False acc cs
      else None)"

definition strip :: "string \<Rightarrow> string" where
  "strip s = rev (dropWhile is_space (rev (dropWhile is_space s)))"

definition parse_int :: "string \<Rightarrow> int option" where
  "parse_int s =
     (case strip s of
        [] \<Rightarrow> None
      | c # cs \<Rightarrow>
          if c = CHR ''-'' then map_option (\<lambda>n. - int n) (parse_digits False 0 cs)
          else if c = CHR ''+'' then map_option int (parse_digits False 0 cs)
          else map_option int (parse_digits False 0 (c # cs)))"

text \<open>\<^verbatim>\<open>int\<close> of a floating-point number cuts off the fraction, towards zero.\<close>

fun float_trunc :: "int \<Rightarrow> int \<Rightarrow> int" where
  "float_trunc m e =
     (if 0 \<le> e then m * 2 ^ nat e
      else if 0 \<le> m then m div 2 ^ nat (- e)
      else - ((- m) div 2 ^ nat (- e)))"

fun py_int :: "pyval \<Rightarrow> error + int" where
  "py_int (VInt n) = Inr n"
| "py_int (VBool b) = Inr (if b then 1 else 0)"
| "py_int (VFloat (Finite m e)) = Inr (float_trunc m e)"
| "py_int (VFloat (Infinity positive)) = Inl OverflowError"
| "py_int (VFloat NaN) = Inl ValueError"
| "py_int (VStr s) = (case parse_int s of None \<Rightarrow> Inl ValueError | Some n \<Rightarrow> Inr n)"
| "py_int VNone = Inl TypeError"
| "py_int (VList xs) = Inl TypeError"
| "py_int (VDict d) = Inl TypeError"
| "py_int (VObj r) = Inl TypeError"

section \<open>Collaborators\<close>

text \<open>
  Everything else the serializers do is a call to a collaborator that is not part of the
  repository: the store (\<^verbatim>\<open>filter\<close>, \<^verbatim>\<open>count\<close> and the iteration of a queryset,
  \<^verbatim>\<open>objects.get\<close>, \<^verbatim>\<open>objects.create\<close>, attribute access on model instances,
  \<^verbatim>\<open>save\<close>, the \<^verbatim>\<open>set\<close> of a related manager), the framework's base
  classes (\<^verbatim>\<open>super().to_internal_value\<close>, \<^verbatim>\<open>super().update\<close>, \<^verbatim>\<open>super().__init__\<close>),
  and the child serializer of a list serializer. A call is a value of type \<open>call\<close>; the
  collaborators together are an environment that answers a call, given the calls made
  and answered so far, with a value or with an exception. The state of the world is
  that history, so a method's effect is the list of calls it appends.
\<close>

datatype call =
    QuerysetFilter pyval string "int list"
  | QuerysetCount pyval
  | QuerysetIter pyval
  | ChildUpdate pyval pyval
  | ObjectsGet string pyval
  | ObjectsCreate pydict
  | Getattr pyval string
  | Setattr pyval string pyval
  | Save pyval
  | RelatedSet pyval pyval
  | MetaGetField pyval string
  | SuperInit pydict
  | SuperToInternalValue pydict
  | SuperUpdate pyval pydict
  | FieldGetValue string pydict
  | Construct pyval pydict bool
  | IsValid pyval
  | SerializerSave pyval

type_synonym reply = "error + pyval"
type_synonym trace = "(call \<times> reply) list"
type_synonym env = "trace \<Rightarrow> call \<Rightarrow> reply"
type_synonym 'a eff = "trace \<Rightarrow> trace \<times> (error + 'a)"

definition perform :: "env \<Rightarrow> call \<Rightarrow> pyval eff" where
  "perform env c t = (t @ [(c, env t c)], env t c)"

definition return :: "'a \<Rightarrow> 'a eff" where
  "return a t = (t, Inr a)"

definition lift :: "error + 'a \<Rightarrow> 'a eff" where
  "lift x t = (t, x)"

text \<open>Sequencing: an exception of the first part ends the method.\<close>

definition andthen :: "'a eff \<Rightarrow> ('a \<Rightarrow> 'b eff) \<Rightarrow> 'b eff" where
  "andthen m f t = (case m t of (t', Inl e) \<Rightarrow> (t', Inl e) | (t', Inr a) \<Rightarrow> f a t')"

section \<open>\<^verbatim>\<open>BulkListSerializer.update\<close>\<close>

text \<open>
  \<^verbatim>\<open>id_attr = getattr(self.child.Meta, 'update_lookup_field', 'id')\<close>: the argument is
  the attribute of the child's \<^verbatim>\<open>Meta\<close>, if it has one.
\<close>

definition lookup_field :: "string option \<Rightarrow> string" where
  "lookup_field meta = (case meta of None \<Rightarrow> ''id'' | Some a \<Rightarrow> a)"

text \<open>
  The dictionary comprehension \<^verbatim>\<open>{int(i.pop(id_attr)): i for i in all_validated_data}\<close>,
  from left to right: a later payload replaces an earlier one with the same key.
\<close>

fun build_by_id :: "string \<Rightarrow> (int \<times> pydict) list \<Rightarrow> pydict list \<Rightarrow> error + (int \<times> pydict) list" where
  "build_by_id id_attr acc [] = Inr acc"
| "build_by_id id_attr acc (i # rest) =
     (case dict_pop i id_attr of
        Inl e \<Rightarrow> Inl e
      | Inr (v, i') \<Rightarrow>
          (case py_int v of
             Inl e \<Rightarrow> Inl e
           | Inr k \<Rightarrow> build_by_id id_attr (AList.update k i' acc) rest))"

text \<open>
  The integer a value is equal to, if it is equal to one: \<^verbatim>\<open>True\<close> and \<^verbatim>\<open>False\<close> are
  equal to 1 and 0, a floating-point number without fraction to its integer.
\<close>

fun float_int :: "pyfloat \<Rightarrow> int option" where
  "float_int (Finite m e) =
     (if 0 \<le> e then Some (m * 2 ^ nat e)
      else if m mod 2 ^ nat (- e) = 0 then Some (m div 2 ^ nat (- e))
      else None)"
| "float_int (Infinity positive) = None"
| "float_int NaN = None"

fun int_value :: "pyval \<Rightarrow> int option" where
  "int_value (VInt n) = Some n"
| "int_value (VBool b) = Some (if b then 1 else 0)"
| "int_value (VFloat f) = float_int f"
| "int_value v = None"

text \<open>
  \<^verbatim>\<open>all_validated_data_by_id.get(obj_id)\<close>: the keys are integers; a list or a dictionary
  is not hashable; a value equal to no key gives \<^verbatim>\<open>None\<close>.
\<close>

fun by_id_get :: "(int \<times> pydict) list \<Rightarrow> pyval \<Rightarrow> error + pyval" where
  "by_id_get d (VList xs) = Inl TypeError"
| "by_id_get d (VDict x) = Inl TypeError"
| "by_id_get d v =
     Inr (case int_value v of
            None \<Rightarrow> VNone
          | Some k \<Rightarrow> (case map_of d k of None \<Rightarrow> VNone | Some p \<Rightarrow> VDict p))"

text \<open>
  The loop \<^verbatim>\<open>for obj in self.objects_to_update\<close>, over the records the iteration of the
  queryset gave: \<^verbatim>\<open>getattr(obj, id_attr)\<close>, the payload for it, the child's
  \<^verbatim>\<open>update\<close>.
\<close>

fun update_loop ::
  "env \<Rightarrow> string \<Rightarrow> (int \<times> pydict) list \<Rightarrow> pyval list \<Rightarrow> pyval list \<Rightarrow> pyval list eff" where
  "update_loop env id_attr by_id updated_objects [] = return updated_objects"
| "update_loop env id_attr by_id updated_objects (obj # objs) =
     andthen (perform env (Getattr obj id_attr)) (\<lambda>obj_id.
     andthen (lift (by_id_get by_id obj_id)) (\<lambda>obj_validated_data.
     andthen (perform env (ChildUpdate obj obj_validated_data)) (\<lambda>r.
       update_loop env id_attr by_id (updated_objects @ [r]) objs)))"

text \<open>
  What the iteration of a queryset yields is the store's answer to \<open>QuerysetIter\<close>, a
  list; anything else cannot be iterated over.
\<close>

fun yielded :: "pyval \<Rightarrow> error + pyval list" where
  "yielded (VList xs) = Inr xs"
| "yielded v = Inl TypeError"

text \<open>
  \<^verbatim>\<open>queryset.filter(**{id_attr + '__in': keys})\<close> makes a queryset, \<^verbatim>\<open>count()\<close> asks the
  store for the number of its records, the \<^verbatim>\<open>for\<close> loop asks for the records: three calls
  to the store, each of which may raise. \<^verbatim>\<open>len(all_validated_data_by_id) != count\<close>
  compares with whatever \<^verbatim>\<open>count()\<close> returned.
\<close>

definition BulkListSerializer_update ::
  "env \<Rightarrow> string option \<Rightarrow> pyval \<Rightarrow> pydict list \<Rightarrow> pyval list eff" where
  "BulkListSerializer_update env meta queryset all_validated_data =
     (let id_attr = lookup_field meta in
      andthen (lift (build_by_id id_attr [] all_validated_data)) (\<lambda>all_validated_data_by_id.
      andthen (perform env (QuerysetFilter queryset (id_attr @ ''__in'')
                              (map fst all_validated_data_by_id))) (\<lambda>objects_to_update.
      andthen (perform env (QuerysetCount objects_to_update)) (\<lambda>count.
        if int_value count \<noteq> Some (int (length all_validated_data_by_id))
        then lift (Inl (ValidationError ''Could not find all objects to update.''))
        else andthen (perform env (QuerysetIter objects_to_update)) (\<lambda>objs.
             andthen (lift (yielded objs)) (\<lambda>objs.
               update_loop env id_attr all_validated_data_by_id [] objs))))))"

text \<open>The identifier a payload carries, as the comprehension computes it.\<close>

definition payload_id :: "string \<Rightarrow> pydict \<Rightarrow> error + int" where
  "payload_id id_attr p =
     (case map_of p id_attr of None \<Rightarrow> Inl KeyError | Some v \<Rightarrow> py_int v)"

section \<open>\<^verbatim>\<open>BaseModelSerializer\<close>\<close>

text \<open>
  A serializer field is known by its class, as far as \<^verbatim>\<open>isinstance\<close> asks for it, and by its
  \<^verbatim>\<open>source\<close>. \<open>Serializer\<close>, \<open>ListSerializer\<close> and \<open>ManyRelatedField\<close> stand
  for these classes and their subclasses, \<open>OtherField\<close> for every other class.
\<close>

datatype field_class = OtherField | Serializer | ListSerializer | ManyRelatedField

record field =
  field_class :: field_class
  field_source :: string

datatype parent_class = ParentSerializer | ParentListSerializer | ParentBulkListSerializer

text \<open>\<open>has_parent\<close>: \<^verbatim>\<open>self.parent.parent\<close> is not \<^verbatim>\<open>None\<close>.\<close>

record parent =
  parent_class :: parent_class
  has_parent :: bool

text \<open>
  What \<^verbatim>\<open>self.context['view'].request\<close> holds: no view in the context, a view without
  a request, a request without a method, or a request with its method.
\<close>

datatype request = NoView | NoRequest | NoMethod | Method string

record serializer =
  self_fields :: "(string \<times> field) list"
  parent :: "parent option"
  update_lookup_field :: "string option"
  view_request :: request

subsection \<open>\<^verbatim>\<open>__init__\<close>\<close>

fun truthy :: "pyval \<Rightarrow> bool" where
  "truthy VNone = False"
| "truthy (VBool b) = b"
| "truthy (VInt n) = (n \<noteq> 0)"
| "truthy (VFloat f) = (case f of Finite m e \<Rightarrow> m \<noteq> 0 | _ \<Rightarrow> True)"
| "truthy (VStr s) = (s \<noteq> [])"
| "truthy (VList xs) = (xs \<noteq> [])"
| "truthy (VDict d) = (d \<noteq> [])"
| "truthy (VObj r) = True"

text \<open>\<^verbatim>\<open>s.split(sep)\<close>; \<open>cur\<close> is the current piece, reversed.\<close>

fun split_on :: "char \<Rightarrow> string \<Rightarrow> string \<Rightarrow> string list" where
  "split_on sep cur [] = [rev cur]"
| "split_on sep cur (c # cs) =
     (if c = sep then rev cur # split_on sep [] cs else split_on sep (c # cur) cs)"

definition split_comma :: "string \<Rightarrow> string list" where
  "split_comma s = split_on (CHR '','') [] s"

text \<open>
  The base constructor is called with all keyword arguments, \<^verbatim>\<open>fields\<close> among them; the
  option is taken out of \<^verbatim>\<open>kwargs\<close> afterwards. \<open>declared\<close> is \<^verbatim>\<open>self.fields\<close> as
  the framework builds it. The loop pops the names of \<^verbatim>\<open>existing - allowed\<close>.
\<close>

definition BaseModelSerializer_init ::
  "env \<Rightarrow> (string \<times> field) list \<Rightarrow> pydict \<Rightarrow> (string \<times> field) list eff" where
  "BaseModelSerializer_init env declared kwargs =
     andthen (perform env (SuperInit kwargs)) (\<lambda>_.
       let fields = (case map_of kwargs ''fields'' of None \<Rightarrow> VNone | Some v \<Rightarrow> v) in
       if truthy fields then
         (case fields of
            VStr s \<Rightarrow>
              (let allowed = split_comma s;
                   existing = map fst declared
               in return (fold AList.delete [n \<leftarrow> existing. n \<notin> set allowed] declared))
          | _ \<Rightarrow> lift (Inl AttributeError))
       else return declared)"

subsection \<open>\<^verbatim>\<open>to_internal_value\<close>\<close>

text \<open>
  \<^verbatim>\<open>not self.parent or isinstance(self.parent, serializers.ListSerializer) and not self.parent.parent\<close>
\<close>

definition is_top :: "serializer \<Rightarrow> bool" where
  "is_top s =
     (case parent s of
        None \<Rightarrow> True
      | Some p \<Rightarrow> parent_class p \<in> {ParentListSerializer, ParentBulkListSerializer} \<and> \<not> has_parent p)"

definition parent_is_bulk :: "serializer \<Rightarrow> bool" where
  "parent_is_bulk s =
     (case parent s of None \<Rightarrow> False | Some p \<Rightarrow> parent_class p = ParentBulkListSerializer)"

text \<open>
  \<^verbatim>\<open>getattr(self.context['view'].request, 'method', '')\<close>: raises in the first variant,
  is \<^verbatim>\<open>None\<close> after the \<^verbatim>\<open>except BaseException\<close> of the extended variant.
\<close>

fun get_request_method :: "request \<Rightarrow> error + string" where
  "get_request_method NoView = Inl KeyError"
| "get_request_method NoRequest = Inl AttributeError"
| "get_request_method NoMethod = Inr []"
| "get_request_method (Method m) = Inr m"

fun get_request_method_ext :: "request \<Rightarrow> string option" where
  "get_request_method_ext NoView = None"
| "get_request_method_ext NoRequest = None"
| "get_request_method_ext NoMethod = Some []"
| "get_request_method_ext (Method m) = Some m"

text \<open>\<^verbatim>\<open>ret[id_attr] = id_value\<close>\<close>

fun py_setitem :: "pyval \<Rightarrow> string \<Rightarrow> pyval \<Rightarrow> error + pyval" where
  "py_setitem (VDict d) k v = Inr (VDict (AList.update k v d))"
| "py_setitem x k v = Inl TypeError"

text \<open>
  \<^verbatim>\<open>id_field = self.fields[id_attr]; id_value = id_field.get_value(data); ret[id_attr] = id_value\<close>
\<close>

definition inject_id :: "env \<Rightarrow> serializer \<Rightarrow> string \<Rightarrow> pydict \<Rightarrow> pyval \<Rightarrow> pyval eff" where
  "inject_id env s id_attr data ret =
     (case map_of (self_fields s) id_attr of
        None \<Rightarrow> lift (Inl KeyError)
      | Some id_field \<Rightarrow>
          andthen (perform env (FieldGetValue id_attr data)) (\<lambda>id_value.
            lift (py_setitem ret id_attr id_value)))"

definition to_internal_value :: "env \<Rightarrow> serializer \<Rightarrow> pydict \<Rightarrow> pyval eff" where
  "to_internal_value env s data =
     (let id_attr = lookup_field (update_lookup_field s) in
      if is_top s then
        andthen (perform env (SuperToInternalValue data)) (\<lambda>ret.
        andthen (lift (get_request_method (view_request s))) (\<lambda>request_method.
          if parent_is_bulk s \<and> id_attr \<noteq> [] \<and> request_method \<in> {''PUT'', ''PATCH''}
          then inject_id env s id_attr data ret
          else return ret))
      else if dict_contains data id_attr then
        andthen (lift (dict_getitem data id_attr)) (\<lambda>v. perform env (ObjectsGet id_attr v))
      else perform env (SuperToInternalValue data))"

text \<open>
  The extended variant: \<^verbatim>\<open>serializer = type(self)(instance, data=data, partial=..., context=self.context)\<close>
  is the call \<open>Construct\<close>, with \<^verbatim>\<open>None\<close> for the instance in the last branch.
\<close>

definition nested_save :: "env \<Rightarrow> pyval \<Rightarrow> pydict \<Rightarrow> bool \<Rightarrow> pyval eff" where
  "nested_save env instance data partial =
     andthen (perform env (Construct instance data partial)) (\<lambda>serializer.
     andthen (perform env (IsValid serializer)) (\<lambda>_.
       perform env (SerializerSave serializer)))"

definition to_internal_value_ext :: "env \<Rightarrow> serializer \<Rightarrow> pydict \<Rightarrow> pyval eff" where
  "to_internal_value_ext env s data =
     (let id_attr = lookup_field (update_lookup_field s) in
      if is_top s then
        andthen (perform env (SuperToInternalValue data)) (\<lambda>ret.
          let request_method = get_request_method_ext (view_request s) in
          if parent_is_bulk s \<and> id_attr \<noteq> [] \<and> request_method \<in> {Some ''PUT'', Some ''PATCH''}
          then inject_id env s id_attr data ret
          else return ret)
      else if dict_contains data id_attr then
        andthen (lift (dict_getitem data id_attr)) (\<lambda>v.
        andthen (perform env (ObjectsGet id_attr v)) (\<lambda>instance.
          nested_save env instance data True))
      else nested_save env VNone data False)"

subsection \<open>\<^verbatim>\<open>create\<close>\<close>

definition is_plural :: "field \<Rightarrow> bool" where
  "is_plural f = (field_class f \<in> {ListSerializer, ManyRelatedField})"

text \<open>The loop \<^verbatim>\<open>for field in self.fields\<close> that fills \<^verbatim>\<open>data\<close> and \<^verbatim>\<open>many_to_many_fields\<close>.\<close>

fun partition_fields ::
  "(string \<times> field) list \<Rightarrow> pydict \<Rightarrow> pydict \<Rightarrow> pydict \<Rightarrow> pydict \<times> pydict" where
  "partition_fields [] validated_data data many_to_many_fields = (data, many_to_many_fields)"
| "partition_fields ((name, f) # rest) validated_data data many_to_many_fields =
     (case map_of validated_data name of
        None \<Rightarrow> partition_fields rest validated_data data many_to_many_fields
      | Some v \<Rightarrow>
          if is_plural f
          then partition_fields rest validated_data data (AList.update name v many_to_many_fields)
          else partition_fields rest validated_data (AList.update name v data) many_to_many_fields)"

text \<open>\<^verbatim>\<open>for field in many_to_many_fields: setattr(instance, field, many_to_many_fields[field])\<close>\<close>

fun setattr_all :: "env \<Rightarrow> pyval \<Rightarrow> pydict \<Rightarrow> unit eff" where
  "setattr_all env instance [] = return ()"
| "setattr_all env instance ((name, v) # rest) =
     andthen (perform env (Setattr instance name v)) (\<lambda>_. setattr_all env instance rest)"

text \<open>\<^verbatim>\<open>for field in many_to_many_fields: getattr(instance, field).set(many_to_many_fields[field])\<close>\<close>

fun set_all :: "env \<Rightarrow> pyval \<Rightarrow> pydict \<Rightarrow> unit eff" where
  "set_all env instance [] = return ()"
| "set_all env instance ((name, v) # rest) =
     andthen (perform env (Getattr instance name)) (\<lambda>manager.
     andthen (perform env (RelatedSet manager v)) (\<lambda>_. set_all env instance rest))"

definition create :: "env \<Rightarrow> serializer \<Rightarrow> pydict \<Rightarrow> pyval eff" where
  "create env s validated_data =
     (case partition_fields (self_fields s) validated_data [] [] of
        (data, many_to_many_fields) \<Rightarrow>
          andthen (perform env (ObjectsCreate data)) (\<lambda>instance.
          andthen (setattr_all env instance many_to_many_fields) (\<lambda>_.
          andthen (perform env (Save instance)) (\<lambda>_.
            return instance))))"

definition create_ext :: "env \<Rightarrow> serializer \<Rightarrow> pydict \<Rightarrow> pyval eff" where
  "create_ext env s validated_data =
     (case partition_fields (self_fields s) validated_data [] [] of
        (data, many_to_many_fields) \<Rightarrow>
          andthen (perform env (ObjectsCreate data)) (\<lambda>instance.
          andthen (set_all env instance many_to_many_fields) (\<lambda>_.
          andthen (perform env (Save instance)) (\<lambda>_.
            return instance))))"

subsection \<open>\<^verbatim>\<open>update\<close>\<close>

text \<open>\<^verbatim>\<open>source.partition('.')\<close>: the parts before and after the first dot.\<close>

definition partition_dot :: "string \<Rightarrow> string \<times> string" where
  "partition_dot s =
     (takeWhile (\<lambda>c. c \<noteq> CHR ''.'') s, drop 1 (dropWhile (\<lambda>c. c \<noteq> CHR ''.'') s))"

text \<open>
  The loop \<^verbatim>\<open>while '.' in source\<close>. The validated data is a tree of dictionaries;
  \<open>v\<close> is the dictionary reached, and \<open>path\<close> holds, for each level passed, the key and
  the dictionary it was read from. Subscripting anything but a dictionary with a string
  raises \<^verbatim>\<open>TypeError\<close>.
\<close>

function walk ::
  "env \<Rightarrow> (string \<times> pydict) list \<Rightarrow> pyval \<Rightarrow> pyval \<Rightarrow> string \<Rightarrow>
   ((string \<times> pydict) list \<times> pyval \<times> pyval) eff" where
  "walk env path v ins source t =
     (if CHR ''.'' \<in> set source then
        (case v of
           VDict d \<Rightarrow>
             (case dict_getitem d (fst (partition_dot source)) of
                Inl e \<Rightarrow> (t, Inl e)
              | Inr v' \<Rightarrow>
                  (case perform env (Getattr ins (fst (partition_dot source))) t of
                     (t', Inl e) \<Rightarrow> (t', Inl e)
                   | (t', Inr ins') \<Rightarrow>
                       walk env (path @ [(fst (partition_dot source), d)]) v' ins'
                         (snd (partition_dot source)) t'))
         | _ \<Rightarrow> (t, Inl TypeError))
      else (t, Inr (path, v, ins)))"
  by pat_completeness auto
termination
proof (relation "measure (\<lambda>(env, path, v, ins, source, t). length source)")
  show "wf (measure (\<lambda>(env, path, v, ins, source, t). length source))" by simp
next
  fix env :: env and path :: "(string \<times> pydict) list" and v ins :: pyval
    and source :: string and t t' :: trace and d :: pydict and v' ins' :: pyval
  assume dot: "CHR ''.'' \<in> set source"
  then have "dropWhile (\<lambda>c. c \<noteq> CHR ''.'') source \<noteq> []"
    by (simp add: dropWhile_eq_Nil_conv)
  then have "length (drop 1 (dropWhile (\<lambda>c. c \<noteq> CHR ''.'') source))
               < length (dropWhile (\<lambda>c. c \<noteq> CHR ''.'') source)"
    by (cases "dropWhile (\<lambda>c. c \<noteq> CHR ''.'') source") simp_all
  also have "\<dots> \<le> length source" by (rule length_dropWhile_le)
  finally show "((env, path @ [(fst (partition_dot source), d)], v', ins',
                  snd (partition_dot source), t'),
                 (env, path, v, ins, source, t))
                \<in> measure (\<lambda>(env, path, v, ins, source, t). length source)"
    by (simp add: partition_dot_def)
qed

declare walk.simps [simp del]

text \<open>\<^verbatim>\<open>v[field]\<close> and \<^verbatim>\<open>v.pop(field)\<close> on whatever the walk reached.\<close>

fun py_getitem :: "pyval \<Rightarrow> string \<Rightarrow> error + pyval" where
  "py_getitem (VDict d) k = dict_getitem d k"
| "py_getitem x k = Inl TypeError"

fun py_pop :: "pyval \<Rightarrow> string \<Rightarrow> error + (pyval \<times> pydict)" where
  "py_pop (VDict d) k = dict_pop d k"
| "py_pop (VList xs) k = Inl TypeError"
| "py_pop x k = Inl AttributeError"

text \<open>
  The loop \<^verbatim>\<open>for field, data in reversed(path)\<close>, from the deepest level up. The
  dictionaries are shared in Python: \<^verbatim>\<open>data[field]\<close> is the dictionary one level
  down as it is now, \<open>child\<close>. The result is the validated data as the method leaves it.
\<close>

fun cleanup :: "(string \<times> pydict) list \<Rightarrow> pydict \<Rightarrow> pydict" where
  "cleanup [] child = child"
| "cleanup ((name, data) # rest) child =
     (let data' = AList.update name (VDict child) data
      in cleanup rest (if length child = 0 then AList.delete name data' else data'))"

definition is_nested :: "field \<Rightarrow> bool" where
  "is_nested f = (field_class f \<in> {Serializer, ListSerializer})"

text \<open>The body of \<^verbatim>\<open>for field in self.fields\<close>, first variant.\<close>

definition update_field :: "env \<Rightarrow> pyval \<Rightarrow> string \<times> field \<Rightarrow> pydict \<Rightarrow> pydict eff" where
  "update_field env instance nf validated_data =
     (case nf of (name, f) \<Rightarrow>
        if is_nested f \<and> dict_contains validated_data name then
          andthen (walk env [] (VDict validated_data) instance (field_source f)) (\<lambda>(path, v, ins).
          andthen (lift (py_pop v name)) (\<lambda>(x, v').
          andthen (perform env (Setattr ins name x)) (\<lambda>_.
          andthen (perform env (Save ins)) (\<lambda>_.
            return (cleanup (rev path) v')))))
        else return validated_data)"

text \<open>
  The extended variant asks the model for the field first:
  \<^verbatim>\<open>isinstance(ins._meta.get_field(field), (ManyToManyField, ManyToManyRel, ManyToOneRel))\<close>.
  The answer is the name of the field's class.
\<close>

definition is_many_relation :: "pyval \<Rightarrow> bool" where
  "is_many_relation c =
     (c \<in> {VStr ''ManyToManyField'', VStr ''ManyToManyRel'', VStr ''ManyToOneRel''})"

definition assign_ext :: "env \<Rightarrow> pyval \<Rightarrow> string \<Rightarrow> pyval \<Rightarrow> pyval eff" where
  "assign_ext env ins name v =
     andthen (perform env (MetaGetField ins name)) (\<lambda>model_field.
       if is_many_relation model_field then
         andthen (perform env (Getattr ins name)) (\<lambda>manager.
         andthen (lift (py_getitem v name)) (\<lambda>x.
           perform env (RelatedSet manager x)))
       else
         andthen (lift (py_getitem v name)) (\<lambda>x.
           perform env (Setattr ins name x)))"

definition update_field_ext :: "env \<Rightarrow> pyval \<Rightarrow> string \<times> field \<Rightarrow> pydict \<Rightarrow> pydict eff" where
  "update_field_ext env instance nf validated_data =
     (case nf of (name, f) \<Rightarrow>
        if is_nested f \<and> dict_contains validated_data name then
          andthen (walk env [] (VDict validated_data) instance (field_source f)) (\<lambda>(path, v, ins).
          andthen (assign_ext env ins name v) (\<lambda>_.
          andthen (lift (py_pop v name)) (\<lambda>(x, v').
          andthen (perform env (Save ins)) (\<lambda>_.
            return (cleanup (rev path) v')))))
        else return validated_data)"

fun update_fields ::
  "(pyval \<Rightarrow> string \<times> field \<Rightarrow> pydict \<Rightarrow> pydict eff) \<Rightarrow> pyval \<Rightarrow> (string \<times> field) list \<Rightarrow>
   pydict \<Rightarrow> pydict eff" where
  "update_fields body instance [] validated_data = return validated_data"
| "update_fields body instance (nf # rest) validated_data =
     andthen (body instance nf validated_data) (\<lambda>validated_data'.
       update_fields body instance rest validated_data')"

definition update :: "env \<Rightarrow> serializer \<Rightarrow> pyval \<Rightarrow> pydict \<Rightarrow> pyval eff" where
  "update env s instance validated_data =
     andthen (update_fields (update_field env) instance (self_fields s) validated_data) (\<lambda>validated_data'.
       perform env (SuperUpdate instance validated_data'))"

definition update_ext :: "env \<Rightarrow> serializer \<Rightarrow> pyval \<Rightarrow> pydict \<Rightarrow> pyval eff" where
  "update_ext env s instance validated_data =
     andthen (update_fields (update_field_ext env) instance (self_fields s) validated_data) (\<lambda>validated_data'.
       perform env (SuperUpdate instance validated_data'))"

section \<open>Reference descriptions and examples\<close>

subsection \<open>Bulk update\<close>

text \<open>
  The payload a batch holds for an identifier, once the dictionary is built: the last one
  carrying that identifier, without its identifier entry.
\<close>

fun last_with_id :: "string \<Rightarrow> pydict list \<Rightarrow> int \<Rightarrow> pydict option" where
  "last_with_id id_attr [] k = None"
| "last_with_id id_attr (p # ps) k =
     (case last_with_id id_attr ps k of
        Some q \<Rightarrow> Some q
      | None \<Rightarrow> if payload_id id_attr p = Inr k then Some (AList.delete id_attr p) else None)"

text \<open>
  The identifiers of a batch, in the order of its payloads, and the keys of the
  dictionary: each identifier once, where it comes first.
\<close>

definition batch_ids :: "string \<Rightarrow> pydict list \<Rightarrow> int list" where
  "batch_ids id_attr avd =
     concat (map (\<lambda>p. case payload_id id_attr p of Inr k \<Rightarrow> [k] | Inl e \<Rightarrow> []) avd)"

definition batch_keys :: "string \<Rightarrow> pydict list \<Rightarrow> int list" where
  "batch_keys id_attr avd = rev (remdups (rev (batch_ids id_attr avd)))"

text \<open>
  The store is described by its records, in the order in which it yields them, and by
  the relation \<open>holds\<close>: \<open>holds r k\<close> says that the lookup \<^verbatim>\<open>id_attr__in\<close> matches the
  record \<open>r\<close> with the key \<open>k\<close>. How the store compares a key with a column (it converts
  the key to the column's type first) is its own business. The records a filtered
  queryset stands for:
\<close>

definition matching :: "(pyval \<Rightarrow> int \<Rightarrow> bool) \<Rightarrow> pyval list \<Rightarrow> int list \<Rightarrow> pyval list" where
  "matching holds records keys = filter (\<lambda>r. \<exists>k\<in>set keys. holds r k) records"

text \<open>A value that can be looked up in a dictionary.\<close>

fun hashable :: "pyval \<Rightarrow> bool" where
  "hashable (VList xs) = False"
| "hashable (VDict d) = False"
| "hashable v = True"

text \<open>
  What the child serializer is given for a record whose lookup attribute is \<open>v\<close>: the
  batch's payload for the identifier \<open>v\<close> is equal to, and \<^verbatim>\<open>None\<close> if \<open>v\<close> is equal to no
  identifier of the batch.
\<close>

definition payload_for :: "string \<Rightarrow> pydict list \<Rightarrow> pyval \<Rightarrow> pyval" where
  "payload_for id_attr avd v =
     (case int_value v of
        None \<Rightarrow> VNone
      | Some k \<Rightarrow> (case last_with_id id_attr avd k of Some q \<Rightarrow> VDict q | None \<Rightarrow> VNone))"

text \<open>
  The calls of the update loop over the records \<open>rs\<close>, where \<open>column r\<close> is the lookup
  attribute of \<open>r\<close> and \<open>us\<close> are the child serializer's results.
\<close>

definition loop_calls ::
  "string \<Rightarrow> pydict list \<Rightarrow> (pyval \<Rightarrow> pyval) \<Rightarrow> pyval list \<Rightarrow> pyval list \<Rightarrow> trace" where
  "loop_calls id_attr avd column rs us =
     concat (map (\<lambda>(r, u). [(Getattr r id_attr, Inr (column r)),
                              (ChildUpdate r (payload_for id_attr avd (column r)), Inr u)])
                 (zip rs us))"

text \<open>
  A store for the examples. Its records are \<open>VObj 1\<close> and \<open>VObj 2\<close>; the record \<open>VObj n\<close>
  has the identifier \<open>n\<close> and no other attribute. A filtered queryset is represented by
  its keys. The child serializer returns the record it was given.
\<close>

fun example_column :: "pyval \<Rightarrow> pyval" where
  "example_column (VObj n) = VInt (int n)"
| "example_column v = VNone"

definition example_holds :: "pyval \<Rightarrow> int \<Rightarrow> bool" where
  "example_holds r k = (example_column r = VInt k)"

definition example_records :: "pyval list" where
  "example_records = [VObj 1, VObj 2]"

definition example_handle :: "int list \<Rightarrow> pyval" where
  "example_handle keys = VList (map VInt keys)"

fun example_keys :: "pyval \<Rightarrow> int list" where
  "example_keys (VList vs) = concat (map (\<lambda>v. case v of VInt k \<Rightarrow> [k] | _ \<Rightarrow> []) vs)"
| "example_keys v = []"

definition example_child :: env where
  "example_child t c =
     (case c of
        QuerysetFilter queryset lookup keys \<Rightarrow> Inr (example_handle keys)
      | QuerysetCount qs \<Rightarrow>
          Inr (VInt (int (length (matching example_holds example_records (example_keys qs)))))
      | QuerysetIter qs \<Rightarrow>
          Inr (VList (matching example_holds example_records (example_keys qs)))
      | Getattr obj a \<Rightarrow> if a = ''id'' then Inr (example_column obj) else Inl AttributeError
      | ChildUpdate obj d \<Rightarrow> Inr obj
      | _ \<Rightarrow> Inl (Raised ''unexpected''))"

text \<open>
  The same store with a text column as identifier: the records \<open>VObj 1\<close> and \<open>VObj 2\<close>
  have the identifiers \<^verbatim>\<open>'1'\<close> and \<^verbatim>\<open>'2'\<close>, and the store matches them with the keys 1
  and 2.
\<close>

fun text_column :: "pyval \<Rightarrow> pyval" where
  "text_column (VObj n) = (if n = 1 then VStr ''1'' else if n = 2 then VStr ''2'' else VNone)"
| "text_column v = VNone"

definition text_holds :: "pyval \<Rightarrow> int \<Rightarrow> bool" where
  "text_holds r k = (case r of VObj n \<Rightarrow> (n = 1 \<or> n = 2) \<and> k = int n | _ \<Rightarrow> False)"

definition text_store :: env where
  "text_store t c =
     (case c of
        QuerysetFilter queryset lookup keys \<Rightarrow> Inr (example_handle keys)
      | QuerysetCount qs \<Rightarrow>
          Inr (VInt (int (length (matching text_holds example_records (example_keys qs)))))
      | QuerysetIter qs \<Rightarrow>
          Inr (VList (matching text_holds example_records (example_keys qs)))
      | Getattr obj a \<Rightarrow> if a = ''id'' then Inr (text_column obj) else Inl AttributeError
      | ChildUpdate obj d \<Rightarrow> Inr obj
      | _ \<Rightarrow> Inl (Raised ''unexpected''))"

text \<open>A store whose database refuses the query, as one does for a key out of its range.\<close>

definition refusing_store :: env where
  "refusing_store t c =
     (case c of
        QuerysetFilter queryset lookup keys \<Rightarrow> Inr (example_handle keys)
      | QuerysetCount qs \<Rightarrow> Inl OverflowError
      | _ \<Rightarrow> Inl (Raised ''unexpected''))"

subsection \<open>Single-record serializer\<close>

text \<open>
  The validated fields that \<^verbatim>\<open>create\<close> passes to the store's \<^verbatim>\<open>create\<close>, and the ones it
  attaches afterwards: the serializer's fields that the validated data has a value for,
  in the serializer's order, split by \<open>is_plural\<close>.
\<close>

definition scalar_data :: "(string \<times> field) list \<Rightarrow> pydict \<Rightarrow> pydict" where
  "scalar_data flds validated_data =
     concat (map (\<lambda>(name, f). case map_of validated_data name of
                                  None \<Rightarrow> []
                                | Some v \<Rightarrow> if is_plural f then [] else [(name, v)]) flds)"

definition plural_data :: "(string \<times> field) list \<Rightarrow> pydict \<Rightarrow> pydict" where
  "plural_data flds validated_data =
     concat (map (\<lambda>(name, f). case map_of validated_data name of
                                  None \<Rightarrow> []
                                | Some v \<Rightarrow> if is_plural f then [(name, v)] else []) flds)"

text \<open>
  No exception of a collaborator is caught or replaced: of the calls a method made, only
  the last one can have raised, and then the method ends with that exception.
\<close>

definition propagates :: "trace \<Rightarrow> trace \<times> (error + 'a) \<Rightarrow> bool" where
  "propagates t out =
     (let new = drop (length t) (fst out) in
      take (length t) (fst out) = t
      \<and> list_all (\<lambda>cr. \<not> isl (snd cr)) (butlast new)
      \<and> (new = [] \<or> (case snd (last new) of Inl e \<Rightarrow> snd out = Inl e | Inr v \<Rightarrow> True)))"








subsection \<open>Examples\<close>

text \<open>
  A store where every call succeeds: \<^verbatim>\<open>create\<close> returns record 7, \<^verbatim>\<open>get\<close> record 5,
  the attribute of record \<open>n\<close> is record \<open>n + 1\<close>, the framework's validation drops the
  identifier, its \<^verbatim>\<open>update\<close> returns the record it was given.
\<close>

definition example_store :: env where
  "example_store t c =
     (case c of
        ObjectsCreate d \<Rightarrow> Inr (VObj 7)
      | ObjectsGet a v \<Rightarrow> Inr (VObj 5)
      | Getattr obj name \<Rightarrow> (case obj of VObj n \<Rightarrow> Inr (VObj (Suc n)) | _ \<Rightarrow> Inr VNone)
      | MetaGetField obj name \<Rightarrow> Inr (VStr ''ForeignKey'')
      | SuperUpdate obj d \<Rightarrow> Inr obj
      | SuperToInternalValue d \<Rightarrow> Inr (VDict (AList.delete ''id'' d))
      | FieldGetValue name d \<Rightarrow> (case map_of d name of None \<Rightarrow> Inr VNone | Some v \<Rightarrow> Inr v)
      | Construct obj d partial \<Rightarrow> Inr (VObj 9)
      | SerializerSave ser \<Rightarrow> Inr (VObj 5)
      | _ \<Rightarrow> Inr VNone)"

text \<open>A store that has no record to look up and refuses to save.\<close>

definition failing_store :: env where
  "failing_store t c =
     (case c of
        ObjectsGet a v \<Rightarrow> Inl DoesNotExist
      | Save obj \<Rightarrow> Inl (Raised ''IntegrityError'')
      | ObjectsCreate d \<Rightarrow> Inr (VObj 7)
      | _ \<Rightarrow> Inr VNone)"

text \<open>
  A base constructor that takes the keyword arguments of the framework's serializer and
  field classes and no other: an unexpected keyword argument is a \<^verbatim>\<open>TypeError\<close>.
\<close>

definition base_keywords :: "string list" where
  "base_keywords =
     [''instance'', ''data'', ''partial'', ''context'', ''many'', ''read_only'', ''write_only'',
      ''required'', ''default'', ''initial'', ''source'', ''label'', ''help_text'', ''style'',
      ''error_messages'', ''validators'', ''allow_null'']"

definition strict_base :: env where
  "strict_base t c =
     (case c of
        SuperInit kwargs \<Rightarrow>
          if list_all (\<lambda>k. k \<in> set base_keywords) (map fst kwargs) then Inr VNone
          else Inl TypeError
      | _ \<Rightarrow> Inr VNone)"

definition example_serializer :: serializer where
  "example_serializer =
     \<lparr>self_fields = [(''name'', \<lparr>field_class = OtherField, field_source = ''name''\<rparr>),
                     (''tags'', \<lparr>field_class = ManyRelatedField, field_source = ''tags''\<rparr>)],
      parent = None, update_lookup_field = None, view_request = NoView\<rparr>"

text \<open>The child of a bulk list serializer at the top, in a request with method \<open>m\<close>.\<close>

definition bulk_child :: "string \<Rightarrow> serializer" where
  "bulk_child m =
     \<lparr>self_fields = [(''id'', \<lparr>field_class = OtherField, field_source = ''id''\<rparr>),
                     (''name'', \<lparr>field_class = OtherField, field_source = ''name''\<rparr>)],
      parent = Some \<lparr>parent_class = ParentBulkListSerializer, has_parent = False\<rparr>,
      update_lookup_field = None, view_request = Method m\<rparr>"

text \<open>A serializer that is a field of another serializer.\<close>

definition nested_serializer :: serializer where
  "nested_serializer =
     \<lparr>self_fields = [(''id'', \<lparr>field_class = OtherField, field_source = ''id''\<rparr>),
                     (''name'', \<lparr>field_class = OtherField, field_source = ''name''\<rparr>)],
      parent = Some \<lparr>parent_class = ParentSerializer, has_parent = False\<rparr>,
      update_lookup_field = None, view_request = Method ''POST''\<rparr>"

definition example_declared :: "(string \<times> field) list" where
  "example_declared =
     [(''id'', \<lparr>field_class = OtherField, field_source = ''id''\<rparr>),
      (''name'', \<lparr>field_class = OtherField, field_source = ''name''\<rparr>),
      (''tags'', \<lparr>field_class = ManyRelatedField, field_source = ''tags''\<rparr>)]"


section \<open>Properties of the bulk update\<close>

lemma dict_pop_payload_id:
  "payload_id id_attr p = Inr k \<Longrightarrow>
     \<exists>v. dict_pop p id_attr = Inr (v, AList.delete id_attr p) \<and> py_int v = Inr k"
  by (auto simp: payload_id_def dict_pop_def split: option.splits)

lemma build_by_id_step:
  "payload_id id_attr p = Inr k \<Longrightarrow>
     build_by_id id_attr acc (p # rest) =
       build_by_id id_attr (AList.update k (AList.delete id_attr p) acc) rest"
  by (auto dest!: dict_pop_payload_id)

lemma build_by_id_fail:
  "payload_id id_attr p = Inl e \<Longrightarrow> build_by_id id_attr acc (p # rest) = Inl e"
  by (auto simp: payload_id_def dict_pop_def split: option.splits)

lemma build_by_id_ok:
  "\<forall>p\<in>set avd. \<exists>k. payload_id id_attr p = Inr k \<Longrightarrow> \<exists>d. build_by_id id_attr acc avd = Inr d"
proof (induction avd arbitrary: acc)
  case Nil
  then show ?case by simp
next
  case (Cons p avd)
  then obtain k where "payload_id id_attr p = Inr k" by auto
  then show ?case using Cons by (simp only: build_by_id_step) auto
qed

lemma build_by_id_keys:
  "build_by_id id_attr acc avd = Inr d \<Longrightarrow>
     set (map fst d) = set (map fst acc) \<union> {k. \<exists>p\<in>set avd. payload_id id_attr p = Inr k}"
proof (induction avd arbitrary: acc)
  case Nil
  then show ?case by simp
next
  case (Cons p avd)
  show ?case
  proof (cases "payload_id id_attr p")
    case (Inl e)
    then show ?thesis using Cons.prems by (simp only: build_by_id_fail) simp
  next
    case (Inr k)
    with Cons.prems have "build_by_id id_attr (AList.update k (AList.delete id_attr p) acc) avd = Inr d"
      by (simp only: build_by_id_step)
    from Cons.IH[OF this] Inr show ?thesis
      by (auto simp: AList.update_keys split: if_splits)
  qed
qed

lemma build_by_id_distinct:
  "build_by_id id_attr acc avd = Inr d \<Longrightarrow> distinct (map fst acc) \<Longrightarrow> distinct (map fst d)"
proof (induction avd arbitrary: acc)
  case Nil
  then show ?case by simp
next
  case (Cons p avd)
  show ?case
  proof (cases "payload_id id_attr p")
    case (Inl e)
    then show ?thesis using Cons.prems by (simp only: build_by_id_fail) simp
  next
    case (Inr k)
    with Cons.prems have "build_by_id id_attr (AList.update k (AList.delete id_attr p) acc) avd = Inr d"
      by (simp only: build_by_id_step)
    from Cons.IH[OF this] Cons.prems(2) show ?thesis
      by (simp add: AList.distinct_update)
  qed
qed

lemma build_by_id_map_of:
  "build_by_id id_attr acc avd = Inr d \<Longrightarrow>
     map_of d k = (case last_with_id id_attr avd k of Some q \<Rightarrow> Some q | None \<Rightarrow> map_of acc k)"
proof (induction avd arbitrary: acc)
  case Nil
  then show ?case by simp
next
  case (Cons p avd)
  show ?case
  proof (cases "payload_id id_attr p")
    case (Inl e)
    then show ?thesis using Cons.prems by (simp only: build_by_id_fail) simp
  next
    case (Inr j)
    with Cons.prems have "build_by_id id_attr (AList.update j (AList.delete id_attr p) acc) avd = Inr d"
      by (simp only: build_by_id_step)
    from Cons.IH[OF this] Inr show ?thesis
      by (auto simp: AList.update_conv' split: option.splits)
  qed
qed

lemma build_by_id_first_bad:
  "\<exists>p\<in>set avd. \<forall>k. payload_id id_attr p \<noteq> Inr k \<Longrightarrow>
     \<exists>p\<in>set avd. \<exists>e. payload_id id_attr p = Inl e \<and> build_by_id id_attr acc avd = Inl e"
proof (induction avd arbitrary: acc)
  case Nil
  then show ?case by simp
next
  case (Cons p avd)
  show ?case
  proof (cases "payload_id id_attr p")
    case (Inl e)
    then show ?thesis by (auto simp only: build_by_id_fail list.set)
  next
    case (Inr k)
    with Cons.prems have "\<exists>p\<in>set avd. \<forall>k. payload_id id_attr p \<noteq> Inr k" by auto
    from Cons.IH[OF this] Inr show ?thesis
      by (simp only: build_by_id_step) auto
  qed
qed

lemma build_by_id_keys_order:
  "build_by_id id_attr acc avd = Inr d \<Longrightarrow> map fst acc = rev (remdups (rev pre)) \<Longrightarrow>
     map fst d = rev (remdups (rev (pre @ batch_ids id_attr avd)))"
proof (induction avd arbitrary: acc pre)
  case Nil
  then show ?case by (simp add: batch_ids_def)
next
  case (Cons p avd)
  show ?case
  proof (cases "payload_id id_attr p")
    case (Inl e)
    then show ?thesis using Cons.prems by (simp only: build_by_id_fail) simp
  next
    case (Inr k)
    with Cons.prems have run: "build_by_id id_attr (AList.update k (AList.delete id_attr p) acc) avd = Inr d"
      by (simp only: build_by_id_step)
    have "set (map fst acc) = set pre" using Cons.prems(2) by simp
    then have keys: "map fst (AList.update k (AList.delete id_attr p) acc) = rev (remdups (rev (pre @ [k])))"
      using Cons.prems(2) by (simp add: AList.update_keys)
    have ids: "batch_ids id_attr (p # avd) = k # batch_ids id_attr avd"
      using Inr by (simp add: batch_ids_def)
    from Cons.IH[OF run keys] show ?thesis by (simp only: ids append_assoc append_Cons append_Nil)
  qed
qed

lemma build_by_id_batch_keys:
  "build_by_id id_attr [] avd = Inr d \<Longrightarrow> map fst d = batch_keys id_attr avd"
  using build_by_id_keys_order[of id_attr "[]" avd d "[]"] by (simp add: batch_keys_def)

lemma set_batch_keys: "set (batch_keys id_attr avd) = set (batch_ids id_attr avd)"
  by (simp add: batch_keys_def)

lemma distinct_batch_keys: "distinct (batch_keys id_attr avd)"
  by (simp add: batch_keys_def)

lemma length_batch_keys:
  "length (batch_keys id_attr avd) = length (remdups (batch_ids id_attr avd))"
proof -
  have "length (batch_keys id_attr avd) = card (set (batch_keys id_attr avd))"
    using distinct_batch_keys by (simp only: distinct_card)
  also have "\<dots> = length (remdups (batch_ids id_attr avd))"
    by (simp only: set_batch_keys length_remdups_card_conv)
  finally show ?thesis .
qed

lemma matching_le:
  "\<forall>k. length (filter (\<lambda>r. holds r k) records) \<le> 1 \<Longrightarrow>
     length (matching holds records keys) \<le> card {k \<in> set keys. \<exists>r\<in>set records. holds r k}"
proof (induction records)
  case Nil
  then show ?case by (simp add: matching_def)
next
  case (Cons r rs)
  let ?K = "\<lambda>xs. {k \<in> set keys. \<exists>r\<in>set xs. holds r k}"
  have fin: "finite (?K (r # rs))" by simp
  from Cons.prems have tail: "\<forall>k. length (filter (\<lambda>r. holds r k) rs) \<le> 1"
    by (auto split: if_splits intro: le_trans)
  note IH = Cons.IH[OF tail]
  show ?case
  proof (cases "\<exists>k\<in>set keys. holds r k")
    case False
    then have "matching holds (r # rs) keys = matching holds rs keys" by (simp add: matching_def)
    moreover have "?K rs \<subseteq> ?K (r # rs)" by auto
    then have "card (?K rs) \<le> card (?K (r # rs))" using fin by (rule card_mono[rotated])
    ultimately show ?thesis using IH by simp
  next
    case True
    then obtain k0 where k0: "k0 \<in> set keys" "holds r k0" by blast
    from Cons.prems k0(2) have "filter (\<lambda>r. holds r k0) rs = []"
      by (metis (mono_tags, lifting) One_nat_def Suc_le_mono filter.simps(2) le_zero_eq length_0_conv length_Cons)
    then have none: "\<forall>x\<in>set rs. \<not> holds x k0" by (simp add: filter_empty_conv)
    have "?K rs \<subseteq> ?K (r # rs) - {k0}" using none by auto
    then have "card (?K rs) \<le> card (?K (r # rs) - {k0})" using fin by (simp add: card_mono)
    moreover have "k0 \<in> ?K (r # rs)" using k0 by auto
    then have "card (?K (r # rs) - {k0}) < card (?K (r # rs))" using fin by (rule card_Diff1_less[rotated])
    moreover have "length (matching holds (r # rs) keys) = Suc (length (matching holds rs keys))"
      using True by (simp add: matching_def)
    ultimately show ?thesis using IH by simp
  qed
qed

lemma matching_ge:
  "\<forall>r\<in>set records. \<forall>k k'. holds r k \<longrightarrow> holds r k' \<longrightarrow> k = k' \<Longrightarrow>
     card {k \<in> set keys. \<exists>r\<in>set records. holds r k} \<le> length (matching holds records keys)"
proof (induction records)
  case Nil
  then show ?case by (simp add: matching_def)
next
  case (Cons r rs)
  let ?K = "\<lambda>xs. {k \<in> set keys. \<exists>r\<in>set xs. holds r k}"
  let ?R = "{k \<in> set keys. holds r k}"
  from Cons.prems have tail: "\<forall>r\<in>set rs. \<forall>k k'. holds r k \<longrightarrow> holds r k' \<longrightarrow> k = k'" by simp
  note IH = Cons.IH[OF tail]
  have split: "?K (r # rs) = ?R \<union> ?K rs" by auto
  have "card (?K (r # rs)) \<le> card ?R + card (?K rs)"
    unfolding split by (rule card_Un_le)
  moreover have "card ?R \<le> (if \<exists>k\<in>set keys. holds r k then 1 else 0)"
  proof (cases "\<exists>k\<in>set keys. holds r k")
    case True
    then obtain k0 where k0: "k0 \<in> set keys" "holds r k0" by blast
    have "?R \<subseteq> {k0}" using Cons.prems k0 by auto
    then have "card ?R \<le> card {k0}" by (rule card_mono[rotated]) simp
    then show ?thesis using True by simp
  next
    case False
    then have "?R = {}" by auto
    then show ?thesis by simp
  qed
  moreover have "length (matching holds (r # rs) keys) =
                   (if \<exists>k\<in>set keys. holds r k then 1 else 0) + length (matching holds rs keys)"
    by (simp add: matching_def)
  ultimately show ?case using IH by simp
qed

lemma matching_short:
  assumes uniq: "\<forall>k. length (filter (\<lambda>r. holds r k) records) \<le> 1"
      and k0: "k0 \<in> set keys"
      and miss: "\<forall>r\<in>set records. \<not> holds r k0"
  shows "length (matching holds records keys) < length keys"
proof -
  let ?K = "{k \<in> set keys. \<exists>r\<in>set records. holds r k}"
  have "?K \<subset> set keys" using k0 miss by auto
  then have "card ?K < card (set keys)" by (simp add: psubset_card_mono)
  also have "\<dots> \<le> length keys" by (rule card_length)
  finally show ?thesis using matching_le[OF uniq, of keys] by simp
qed

lemma matching_full:
  assumes uniq: "\<forall>k. length (filter (\<lambda>r. holds r k) records) \<le> 1"
      and single: "\<forall>r\<in>set records. \<forall>k k'. holds r k \<longrightarrow> holds r k' \<longrightarrow> k = k'"
      and dist: "distinct keys"
      and exist: "\<forall>k\<in>set keys. \<exists>r\<in>set records. holds r k"
  shows "length (matching holds records keys) = length keys"
proof -
  have "{k \<in> set keys. \<exists>r\<in>set records. holds r k} = set keys" using exist by auto
  then have "length (matching holds records keys) = card (set keys)"
    using matching_le[OF uniq, of keys] matching_ge[OF single, of keys] by simp
  then show ?thesis using dist by (simp add: distinct_card)
qed

lemma by_id_get_payload_for:
  "(\<And>k. map_of d k = last_with_id id_attr avd k) \<Longrightarrow> hashable v \<Longrightarrow>
     by_id_get d v = Inr (payload_for id_attr avd v)"
  by (cases v) (simp_all add: payload_for_def split: option.splits)

lemma update_loop_run:
  assumes child: "\<And>t obj d. \<exists>u. env t (ChildUpdate obj d) = Inr u"
      and attr: "\<And>t r. r \<in> set objs \<Longrightarrow> env t (Getattr r a) = Inr (column r)"
      and get: "\<And>r. r \<in> set objs \<Longrightarrow> by_id_get d (column r) = Inr (payload_for a avd (column r))"
  shows "\<exists>us. length us = length objs \<and>
           update_loop env a d updated objs t =
             (t @ loop_calls a avd column objs us, Inr (updated @ us))"
  using attr get
proof (induction objs arbitrary: updated t)
  case Nil
  show ?case by (simp add: return_def loop_calls_def)
next
  case (Cons obj objs)
  let ?p = "payload_for a avd (column obj)"
  let ?t1 = "t @ [(Getattr obj a, Inr (column obj))]"
  from child obtain u where u: "env ?t1 (ChildUpdate obj ?p) = Inr u" by blast
  let ?t2 = "?t1 @ [(ChildUpdate obj ?p, Inr u)]"
  have a1: "env t (Getattr obj a) = Inr (column obj)" using Cons.prems(1) by simp
  have g1: "by_id_get d (column obj) = Inr ?p" using Cons.prems(2) by simp
  have "\<exists>us. length us = length objs \<and>
           update_loop env a d (updated @ [u]) objs ?t2 =
             (?t2 @ loop_calls a avd column objs us, Inr ((updated @ [u]) @ us))"
    by (rule Cons.IH) (simp_all add: Cons.prems)
  then obtain us where len: "length us = length objs"
    and run: "update_loop env a d (updated @ [u]) objs ?t2 =
             (?t2 @ loop_calls a avd column objs us, Inr ((updated @ [u]) @ us))"
    by blast
  have "update_loop env a d updated (obj # objs) t =
          (t @ loop_calls a avd column (obj # objs) (u # us), Inr (updated @ (u # us)))"
    using a1 g1 u run by (simp add: andthen_def lift_def perform_def loop_calls_def)
  with len show ?case by (intro exI[of _ "u # us"]) simp
qed

lemma set_batch_ids:
  "set (batch_ids id_attr avd) = {k. \<exists>p\<in>set avd. payload_id id_attr p = Inr k}"
  by (auto simp: batch_ids_def split: sum.splits)

lemma length_batch_ids:
  "\<forall>p\<in>set avd. \<exists>k. payload_id id_attr p = Inr k \<Longrightarrow> length (batch_ids id_attr avd) = length avd"
  by (induction avd) (auto simp: batch_ids_def)

lemma py_int_float_error:
  "py_int (VFloat f) = Inl e \<Longrightarrow> e = ValueError \<or> e = OverflowError"
  by (cases f) auto

lemma py_int_error:
  "py_int v = Inl e \<Longrightarrow> e = ValueError \<or> e = TypeError \<or> e = OverflowError"
  by (cases v) (auto split: option.splits dest: py_int_float_error)

lemma payload_id_error:
  "payload_id id_attr p = Inl e \<Longrightarrow>
     (e = KeyError \<and> \<not> dict_contains p id_attr) \<or>
     ((e = ValueError \<or> e = TypeError \<or> e = OverflowError) \<and>
      (\<exists>v. dict_getitem p id_attr = Inr v \<and> py_int v = Inl e))"
  by (auto simp: payload_id_def dict_contains_def dict_getitem_def split: option.splits
           dest: py_int_error)

lemma last_with_id_Some:
  "last_with_id id_attr avd k = Some x \<Longrightarrow>
     \<exists>q\<in>set avd. payload_id id_attr q = Inr k \<and> x = AList.delete id_attr q"
  by (induction avd) (auto split: option.splits if_splits)

lemma last_with_id_None:
  "last_with_id id_attr avd k = None \<longleftrightarrow> (\<forall>p\<in>set avd. payload_id id_attr p \<noteq> Inr k)"
  by (induction avd) (auto split: option.splits)

lemma last_with_id_last:
  "payload_id id_attr q = Inr k \<Longrightarrow> \<forall>p\<in>set ys. payload_id id_attr p \<noteq> Inr k \<Longrightarrow>
     last_with_id id_attr (xs @ q # ys) k = Some (AList.delete id_attr q)"
  by (induction xs) (auto simp: last_with_id_None[THEN iffD2] split: option.splits)

lemma not_contains_delete: "\<not> dict_contains (AList.delete k d) k"
  by (simp add: dict_contains_def AList.delete_conv')

lemma bulk_update_run:
  assumes wf: "\<forall>p\<in>set avd. \<exists>k. payload_id (lookup_field meta) p = Inr k"
      and filter: "\<And>t keys. env t (QuerysetFilter queryset (lookup_field meta @ ''__in'') keys)
                                = Inr (handle keys)"
      and count: "\<And>t keys. env t (QuerysetCount (handle keys))
                                = Inr (VInt (int (length (matching holds records keys))))"
      and iter: "\<And>t keys. env t (QuerysetIter (handle keys))
                                = Inr (VList (matching holds records keys))"
      and attr: "\<And>t r. r \<in> set records \<Longrightarrow> env t (Getattr r (lookup_field meta)) = Inr (column r)"
      and hash: "\<forall>r\<in>set records. hashable (column r)"
      and uniq: "\<forall>k. length (filter (\<lambda>r. holds r k) records) \<le> 1"
      and single: "\<forall>r\<in>set records. \<forall>k k'. holds r k \<longrightarrow> holds r k' \<longrightarrow> k = k'"
      and exist: "\<forall>k\<in>set (batch_ids (lookup_field meta) avd). \<exists>r\<in>set records. holds r k"
      and child: "\<And>t obj d. \<exists>u. env t (ChildUpdate obj d) = Inr u"
  shows "\<exists>us. BulkListSerializer_update env meta queryset avd t =
           (t @ [(QuerysetFilter queryset (lookup_field meta @ ''__in'')
                    (batch_keys (lookup_field meta) avd),
                  Inr (handle (batch_keys (lookup_field meta) avd))),
                 (QuerysetCount (handle (batch_keys (lookup_field meta) avd)),
                  Inr (VInt (int (length (remdups (batch_ids (lookup_field meta) avd)))))),
                 (QuerysetIter (handle (batch_keys (lookup_field meta) avd)),
                  Inr (VList (matching holds records (batch_keys (lookup_field meta) avd))))]
              @ loop_calls (lookup_field meta) avd column
                  (matching holds records (batch_keys (lookup_field meta) avd)) us,
            Inr us)
         \<and> length us = length (remdups (batch_ids (lookup_field meta) avd))
         \<and> length (matching holds records (batch_keys (lookup_field meta) avd))
             = length (remdups (batch_ids (lookup_field meta) avd))"
proof -
  let ?a = "lookup_field meta"
  let ?keys = "batch_keys ?a avd"
  let ?ms = "matching holds records ?keys"
  let ?n = "length (remdups (batch_ids ?a avd))"
  from build_by_id_ok[OF wf, of "[]"] obtain d where d: "build_by_id ?a [] avd = Inr d" by blast
  have keys: "map fst d = ?keys" by (rule build_by_id_batch_keys[OF d])
  have lookup: "map_of d k = last_with_id ?a avd k" for k
    using build_by_id_map_of[OF d, of k] by (simp split: option.splits)
  have lenk: "length ?keys = ?n" by (rule length_batch_keys)
  have "length d = length (map fst d)" by simp
  then have lend: "length d = ?n" using keys lenk by simp
  have ex: "\<forall>k\<in>set ?keys. \<exists>r\<in>set records. holds r k"
    using exist by (simp only: set_batch_keys)
  have lenm: "length ?ms = ?n"
    using matching_full[OF uniq single distinct_batch_keys ex] lenk by simp
  have sub: "set ?ms \<subseteq> set records" by (auto simp: matching_def)
  have attr': "env t r' = Inr (column r)" if "r \<in> set ?ms" "r' = Getattr r ?a" for t r r'
    using that attr sub by blast
  have get: "by_id_get d (column r) = Inr (payload_for ?a avd (column r))" if "r \<in> set ?ms" for r
  proof -
    from that sub hash have "hashable (column r)" by blast
    then show ?thesis using lookup by (rule by_id_get_payload_for[rotated])
  qed
  let ?t3 = "t @ [(QuerysetFilter queryset (?a @ ''__in'') ?keys, Inr (handle ?keys)),
                  (QuerysetCount (handle ?keys), Inr (VInt (int ?n))),
                  (QuerysetIter (handle ?keys), Inr (VList ?ms))]"
  have "\<exists>us. length us = length ?ms \<and>
           update_loop env ?a d [] ?ms ?t3 = (?t3 @ loop_calls ?a avd column ?ms us, Inr ([] @ us))"
  proof (rule update_loop_run)
    show "\<exists>u. env t (ChildUpdate obj d) = Inr u" for t obj d by (rule child)
    show "env t (Getattr r ?a) = Inr (column r)" if "r \<in> set ?ms" for t r
      using that by (rule attr'[OF _ refl])
    show "by_id_get d (column r) = Inr (payload_for ?a avd (column r))" if "r \<in> set ?ms" for r
      using that by (rule get)
  qed
  then obtain us where lenu: "length us = length ?ms"
    and loop: "update_loop env ?a d [] ?ms ?t3 = (?t3 @ loop_calls ?a avd column ?ms us, Inr us)"
    by auto
  have c: "env t' (QuerysetCount (handle ?keys)) = Inr (VInt (int ?n))" for t'
    using count[of t' ?keys] lenm by simp
  have res: "BulkListSerializer_update env meta queryset avd t =
               (?t3 @ loop_calls ?a avd column ?ms us, Inr us)"
    using d keys lend filter c iter loop
    by (simp add: BulkListSerializer_update_def Let_def andthen_def lift_def perform_def)
  show ?thesis
    by (rule exI[of _ us]) (simp only: res lenu lenm simp_thms append_assoc)
qed

lemma payload_for_ident:
  assumes k: "k \<in> set (batch_ids id_attr avd)" and v: "int_value v = Some k"
  shows "\<exists>p\<in>set avd. payload_id id_attr p = Inr k
           \<and> payload_for id_attr avd v = VDict (AList.delete id_attr p)
           \<and> \<not> dict_contains (AList.delete id_attr p) id_attr"
proof -
  from k have "last_with_id id_attr avd k \<noteq> None"
    by (simp add: last_with_id_None set_batch_ids)
  then obtain x where x: "last_with_id id_attr avd k = Some x" by blast
  from last_with_id_Some[OF x] obtain q where
    q: "q \<in> set avd" "payload_id id_attr q = Inr k" "x = AList.delete id_attr q" by blast
  have "payload_for id_attr avd v = VDict (AList.delete id_attr q)"
    using v x q(3) by (simp add: payload_for_def)
  with q show ?thesis using not_contains_delete by blast
qed

lemma example_keys_handle: "example_keys (example_handle keys) = keys"
  by (induction keys) (simp_all add: example_handle_def)

lemmas bulk_eval =
  BulkListSerializer_update_def lookup_field_def dict_pop_def matching_def
  example_child_def example_holds_def example_records_def example_handle_def
  andthen_def lift_def perform_def return_def
  payload_id_def batch_ids_def batch_keys_def dict_contains_def dict_getitem_def

lemma payload_for_none:
  "\<forall>k\<in>set (batch_ids id_attr avd). int_value v \<noteq> Some k \<Longrightarrow> payload_for id_attr avd v = VNone"
proof (cases "int_value v")
  case None
  then show ?thesis by (simp add: payload_for_def)
next
  case (Some k)
  assume "\<forall>k\<in>set (batch_ids id_attr avd). int_value v \<noteq> Some k"
  with Some have "k \<notin> set (batch_ids id_attr avd)" by auto
  then have "last_with_id id_attr avd k = None"
    by (simp add: last_with_id_None set_batch_ids)
  with Some show ?thesis by (simp add: payload_for_def)
qed

text \<open>
  Claim C1. The store answers the filter with a queryset and \<^verbatim>\<open>count()\<close> with the number
  of its records that match one of the keys, and no two of its records match the same
  key. For a batch whose payloads all carry an identifier, one of which matches no record
  of the store, the method raises the validation error
  \<^verbatim>\<open>Could not find all objects to update.\<close> after these two queries and no other call:
  the count, which is less than the number of distinct identifiers, is compared before
  the loop, so the queryset is not iterated and the child serializer's \<^verbatim>\<open>update\<close> is
  called on no record.
\<close>

theorem bulk_update_rejects_unknown_identifier:
  assumes wf: "\<forall>p\<in>set avd. \<exists>k. payload_id (lookup_field meta) p = Inr k"
      and filter: "\<And>t keys. env t (QuerysetFilter queryset (lookup_field meta @ ''__in'') keys)
                                = Inr (handle keys)"
      and count: "\<And>t keys. env t (QuerysetCount (handle keys))
                                = Inr (VInt (int (length (matching holds records keys))))"
      and uniq: "\<forall>k. length (filter (\<lambda>r. holds r k) records) \<le> 1"
      and unknown: "\<exists>k\<in>set (batch_ids (lookup_field meta) avd). \<forall>r\<in>set records. \<not> holds r k"
  shows "BulkListSerializer_update env meta queryset avd t =
           (t @ [(QuerysetFilter queryset (lookup_field meta @ ''__in'')
                    (batch_keys (lookup_field meta) avd),
                  Inr (handle (batch_keys (lookup_field meta) avd))),
                 (QuerysetCount (handle (batch_keys (lookup_field meta) avd)),
                  Inr (VInt (int (length (matching holds records
                                            (batch_keys (lookup_field meta) avd))))))],
            Inl (ValidationError ''Could not find all objects to update.''))
         \<and> length (matching holds records (batch_keys (lookup_field meta) avd))
             < length (remdups (batch_ids (lookup_field meta) avd))"
proof -
  let ?a = "lookup_field meta"
  let ?keys = "batch_keys ?a avd"
  from build_by_id_ok[OF wf, of "[]"] obtain d where d: "build_by_id ?a [] avd = Inr d" by blast
  have keys: "map fst d = ?keys" by (rule build_by_id_batch_keys[OF d])
  have "length d = length (map fst d)" by simp
  then have lend: "length d = length ?keys" using keys by simp
  from unknown obtain k0 where k0: "k0 \<in> set ?keys" and miss: "\<forall>r\<in>set records. \<not> holds r k0"
    by (auto simp only: set_batch_keys)
  have short: "length (matching holds records ?keys) < length ?keys"
    by (rule matching_short[OF uniq k0 miss])
  then have ne: "length (matching holds records ?keys) \<noteq> length d" using lend by simp
  have res: "BulkListSerializer_update env meta queryset avd t =
           (t @ [(QuerysetFilter queryset (?a @ ''__in'') ?keys, Inr (handle ?keys)),
                 (QuerysetCount (handle ?keys),
                  Inr (VInt (int (length (matching holds records ?keys)))))],
            Inl (ValidationError ''Could not find all objects to update.''))"
    using d keys ne filter count
    by (simp add: BulkListSerializer_update_def Let_def andthen_def lift_def perform_def)
  show ?thesis using res short by (simp only: length_batch_keys simp_thms)
qed

text \<open>
  The batch of the specification: identifiers 1 and 99 against records 1 and 2. The
  store counts one record.
\<close>

theorem bulk_update_rejects_unknown_identifier_witness:
  "BulkListSerializer_update example_child None (VObj 0)
     [[(''id'', VInt 1), (''name'', VStr ''a'')], [(''id'', VInt 99), (''name'', VStr ''b'')]] []
   = ([(QuerysetFilter (VObj 0) ''id__in'' [1, 99], Inr (VList [VInt 1, VInt 99])),
       (QuerysetCount (VList [VInt 1, VInt 99]), Inr (VInt 1))],
      Inl (ValidationError ''Could not find all objects to update.''))"
proof -
  let ?avd = "[[(''id'', VInt 1), (''name'', VStr ''a'')], [(''id'', VInt 99), (''name'', VStr ''b'')]]"
  have h1: "\<forall>p\<in>set ?avd. \<exists>k. payload_id (lookup_field None) p = Inr k"
    by (simp add: payload_id_def lookup_field_def)
  have h2: "example_child t (QuerysetFilter (VObj 0) (lookup_field None @ ''__in'') keys)
              = Inr (example_handle keys)" for t keys
    by (simp add: example_child_def)
  have h3: "example_child t (QuerysetCount (example_handle keys))
              = Inr (VInt (int (length (matching example_holds example_records keys))))" for t keys
    by (simp add: example_child_def example_keys_handle)
  have h4: "\<forall>k. length (filter (\<lambda>r. example_holds r k) example_records) \<le> 1"
    by (simp add: example_holds_def example_records_def)
  have h5: "\<exists>k\<in>set (batch_ids (lookup_field None) ?avd). \<forall>r\<in>set example_records. \<not> example_holds r k"
    by (simp add: batch_ids_def payload_id_def lookup_field_def example_holds_def example_records_def)
  have ev: ?thesis
    by (simp add: bulk_eval Let_def)
  show ?thesis
    using bulk_update_rejects_unknown_identifier[where env=example_child and meta=None
            and queryset="VObj 0" and avd="?avd" and handle=example_handle
            and holds=example_holds and records=example_records and t="[]", OF h1 h2 h3 h4 h5]
    by (simp only: ev)
qed

text \<open>
  Claim C2. The store answers the filter, \<^verbatim>\<open>count()\<close> and the iteration with the records
  that match one of the keys, in its own order; a record's lookup attribute is \<open>column r\<close>,
  a value that can be a dictionary key; no two records match the same key and no record
  matches two keys; the child serializer does not raise. For a batch with pairwise
  distinct identifiers that all match a record, the method returns one record for each
  payload: the results of the child's \<^verbatim>\<open>update\<close>, called once on each matching record in
  the order in which the store yields them. A record whose lookup attribute is equal to
  an identifier of the batch is updated with the payload of that identifier, without its
  identifier entry; a record whose lookup attribute is equal to none (the store matched
  it after converting the key, as it does for a text column) is updated with \<^verbatim>\<open>None\<close>.
\<close>

theorem bulk_update_one_record_per_payload:
  assumes wf: "\<forall>p\<in>set avd. \<exists>k. payload_id (lookup_field meta) p = Inr k"
      and distinct_ids: "distinct (batch_ids (lookup_field meta) avd)"
      and filter: "\<And>t keys. env t (QuerysetFilter queryset (lookup_field meta @ ''__in'') keys)
                                = Inr (handle keys)"
      and count: "\<And>t keys. env t (QuerysetCount (handle keys))
                                = Inr (VInt (int (length (matching holds records keys))))"
      and iter: "\<And>t keys. env t (QuerysetIter (handle keys))
                                = Inr (VList (matching holds records keys))"
      and attr: "\<And>t r. r \<in> set records \<Longrightarrow> env t (Getattr r (lookup_field meta)) = Inr (column r)"
      and hash: "\<forall>r\<in>set records. hashable (column r)"
      and uniq: "\<forall>k. length (filter (\<lambda>r. holds r k) records) \<le> 1"
      and single: "\<forall>r\<in>set records. \<forall>k k'. holds r k \<longrightarrow> holds r k' \<longrightarrow> k = k'"
      and exist: "\<forall>k\<in>set (batch_ids (lookup_field meta) avd). \<exists>r\<in>set records. holds r k"
      and child: "\<And>t obj d. \<exists>u. env t (ChildUpdate obj d) = Inr u"
  shows "\<exists>us. BulkListSerializer_update env meta queryset avd t =
           (t @ [(QuerysetFilter queryset (lookup_field meta @ ''__in'')
                    (batch_keys (lookup_field meta) avd),
                  Inr (handle (batch_keys (lookup_field meta) avd))),
                 (QuerysetCount (handle (batch_keys (lookup_field meta) avd)),
                  Inr (VInt (int (length avd)))),
                 (QuerysetIter (handle (batch_keys (lookup_field meta) avd)),
                  Inr (VList (matching holds records (batch_keys (lookup_field meta) avd))))]
              @ loop_calls (lookup_field meta) avd column
                  (matching holds records (batch_keys (lookup_field meta) avd)) us,
            Inr us)
         \<and> length us = length avd
         \<and> length (matching holds records (batch_keys (lookup_field meta) avd)) = length avd
         \<and> (\<forall>r\<in>set (matching holds records (batch_keys (lookup_field meta) avd)).
              \<forall>k\<in>set (batch_ids (lookup_field meta) avd).
                int_value (column r) = Some k \<longrightarrow>
                  (\<exists>p\<in>set avd. payload_id (lookup_field meta) p = Inr k
                     \<and> payload_for (lookup_field meta) avd (column r)
                         = VDict (AList.delete (lookup_field meta) p)
                     \<and> \<not> dict_contains (AList.delete (lookup_field meta) p) (lookup_field meta)))
         \<and> (\<forall>r\<in>set (matching holds records (batch_keys (lookup_field meta) avd)).
              (\<forall>k\<in>set (batch_ids (lookup_field meta) avd). int_value (column r) \<noteq> Some k) \<longrightarrow>
                payload_for (lookup_field meta) avd (column r) = VNone)"
proof -
  let ?a = "lookup_field meta"
  let ?ms = "matching holds records (batch_keys ?a avd)"
  have n: "length (remdups (batch_ids ?a avd)) = length avd"
    using distinct_ids length_batch_ids[OF wf] by (simp add: distinct_remdups_id)
  from bulk_update_run[where env=env and meta=meta and queryset=queryset and avd=avd
         and handle=handle and holds=holds and records=records and column=column and t=t,
         OF wf filter count iter attr hash uniq single exist child]
  obtain us where
    res: "BulkListSerializer_update env meta queryset avd t =
           (t @ [(QuerysetFilter queryset (?a @ ''__in'') (batch_keys ?a avd),
                  Inr (handle (batch_keys ?a avd))),
                 (QuerysetCount (handle (batch_keys ?a avd)),
                  Inr (VInt (int (length (remdups (batch_ids ?a avd)))))),
                 (QuerysetIter (handle (batch_keys ?a avd)), Inr (VList ?ms))]
              @ loop_calls ?a avd column ?ms us,
            Inr us)"
    and lenu: "length us = length (remdups (batch_ids ?a avd))"
    and lenm: "length ?ms = length (remdups (batch_ids ?a avd))"
    by blast
  have given: "\<exists>p\<in>set avd. payload_id ?a p = Inr k
                 \<and> payload_for ?a avd (column r) = VDict (AList.delete ?a p)
                 \<and> \<not> dict_contains (AList.delete ?a p) ?a"
    if "k \<in> set (batch_ids ?a avd)" "int_value (column r) = Some k" for r k
    using that by (rule payload_for_ident)
  have none: "payload_for ?a avd (column r) = VNone"
    if "\<forall>k\<in>set (batch_ids ?a avd). int_value (column r) \<noteq> Some k" for r
    using that by (rule payload_for_none)
  show ?thesis
    apply (rule exI[of _ us])
    apply (intro conjI ballI impI)
        apply (simp only: res n)
       apply (simp only: lenu n)
      apply (simp only: lenm n)
     apply (erule (1) given)
    apply (erule none)
    done
qed

text \<open>
  Payloads for 2 and 1, in that order, against records 1 and 2: record 1 comes first.
\<close>

theorem bulk_update_one_record_per_payload_witness:
  "BulkListSerializer_update example_child None (VObj 0)
     [[(''id'', VInt 2), (''name'', VStr ''b'')], [(''id'', VInt 1), (''name'', VStr ''a'')]] []
   = ([(QuerysetFilter (VObj 0) ''id__in'' [2, 1], Inr (VList [VInt 2, VInt 1])),
       (QuerysetCount (VList [VInt 2, VInt 1]), Inr (VInt 2)),
       (QuerysetIter (VList [VInt 2, VInt 1]), Inr (VList [VObj 1, VObj 2])),
       (Getattr (VObj 1) ''id'', Inr (VInt 1)),
       (ChildUpdate (VObj 1) (VDict [(''name'', VStr ''a'')]), Inr (VObj 1)),
       (Getattr (VObj 2) ''id'', Inr (VInt 2)),
       (ChildUpdate (VObj 2) (VDict [(''name'', VStr ''b'')]), Inr (VObj 2))],
      Inr [VObj 1, VObj 2])"
proof -
  let ?avd = "[[(''id'', VInt 2), (''name'', VStr ''b'')], [(''id'', VInt 1), (''name'', VStr ''a'')]]"
  have h1: "\<forall>p\<in>set ?avd. \<exists>k. payload_id (lookup_field None) p = Inr k"
    by (simp add: payload_id_def lookup_field_def)
  have h2: "distinct (batch_ids (lookup_field None) ?avd)"
    by (simp add: batch_ids_def payload_id_def lookup_field_def)
  have h3: "example_child t (QuerysetFilter (VObj 0) (lookup_field None @ ''__in'') keys)
              = Inr (example_handle keys)" for t keys
    by (simp add: example_child_def)
  have h4: "example_child t (QuerysetCount (example_handle keys))
              = Inr (VInt (int (length (matching example_holds example_records keys))))" for t keys
    by (simp add: example_child_def example_keys_handle)
  have h5: "example_child t (QuerysetIter (example_handle keys))
              = Inr (VList (matching example_holds example_records keys))" for t keys
    by (simp add: example_child_def example_keys_handle)
  have h6: "example_child t (Getattr r (lookup_field None)) = Inr (example_column r)"
    if "r \<in> set example_records" for t r
    by (simp add: example_child_def lookup_field_def)
  have h7: "\<forall>r\<in>set example_records. hashable (example_column r)"
    by (simp add: example_records_def)
  have h8: "\<forall>k. length (filter (\<lambda>r. example_holds r k) example_records) \<le> 1"
    by (simp add: example_holds_def example_records_def)
  have h9: "\<forall>r\<in>set example_records. \<forall>k k'. example_holds r k \<longrightarrow> example_holds r k' \<longrightarrow> k = k'"
    by (simp add: example_holds_def example_records_def)
  have h10: "\<forall>k\<in>set (batch_ids (lookup_field None) ?avd). \<exists>r\<in>set example_records. example_holds r k"
    by (simp add: batch_ids_def payload_id_def lookup_field_def example_holds_def example_records_def)
  have h11: "\<exists>u. example_child t (ChildUpdate obj d) = Inr u" for t obj d
    by (simp add: example_child_def)
  have ev: ?thesis
    by (simp add: bulk_eval Let_def)
  show ?thesis
    using bulk_update_one_record_per_payload[where env=example_child and meta=None
            and queryset="VObj 0" and avd="?avd" and handle=example_handle
            and holds=example_holds and records=example_records and column=example_column
            and t="[]", OF h1 h2 h3 h4 h5 h6 h7 h8 h9 h10 h11]
    by (simp only: ev)
qed

text \<open>
  Claim C9. With identifiers repeated in the batch, under the same conditions on the
  store and the child serializer: the dictionary has one key for each distinct
  identifier, the count the store answers is compared with the number of distinct
  identifiers, so the check passes when each of them matches a record, and the method
  returns one record for each distinct identifier. The payload kept for an identifier is
  the last one of the batch that carries it.
\<close>

theorem bulk_update_last_duplicate_wins:
  assumes wf: "\<forall>p\<in>set avd. \<exists>k. payload_id (lookup_field meta) p = Inr k"
      and filter: "\<And>t keys. env t (QuerysetFilter queryset (lookup_field meta @ ''__in'') keys)
                                = Inr (handle keys)"
      and count: "\<And>t keys. env t (QuerysetCount (handle keys))
                                = Inr (VInt (int (length (matching holds records keys))))"
      and iter: "\<And>t keys. env t (QuerysetIter (handle keys))
                                = Inr (VList (matching holds records keys))"
      and attr: "\<And>t r. r \<in> set records \<Longrightarrow> env t (Getattr r (lookup_field meta)) = Inr (column r)"
      and hash: "\<forall>r\<in>set records. hashable (column r)"
      and uniq: "\<forall>k. length (filter (\<lambda>r. holds r k) records) \<le> 1"
      and single: "\<forall>r\<in>set records. \<forall>k k'. holds r k \<longrightarrow> holds r k' \<longrightarrow> k = k'"
      and exist: "\<forall>k\<in>set (batch_ids (lookup_field meta) avd). \<exists>r\<in>set records. holds r k"
      and child: "\<And>t obj d. \<exists>u. env t (ChildUpdate obj d) = Inr u"
  shows "\<exists>us. BulkListSerializer_update env meta queryset avd t =
           (t @ [(QuerysetFilter queryset (lookup_field meta @ ''__in'')
                    (batch_keys (lookup_field meta) avd),
                  Inr (handle (batch_keys (lookup_field meta) avd))),
                 (QuerysetCount (handle (batch_keys (lookup_field meta) avd)),
                  Inr (VInt (int (length (remdups (batch_ids (lookup_field meta) avd)))))),
                 (QuerysetIter (handle (batch_keys (lookup_field meta) avd)),
                  Inr (VList (matching holds records (batch_keys (lookup_field meta) avd))))]
              @ loop_calls (lookup_field meta) avd column
                  (matching holds records (batch_keys (lookup_field meta) avd)) us,
            Inr us)
         \<and> length us = length (remdups (batch_ids (lookup_field meta) avd))
         \<and> length (batch_keys (lookup_field meta) avd)
             = length (remdups (batch_ids (lookup_field meta) avd))
         \<and> (\<forall>xs q ys k v. avd = xs @ q # ys \<and> payload_id (lookup_field meta) q = Inr k
                \<and> (\<forall>p\<in>set ys. payload_id (lookup_field meta) p \<noteq> Inr k)
                \<and> int_value v = Some k
              \<longrightarrow> payload_for (lookup_field meta) avd v
                    = VDict (AList.delete (lookup_field meta) q))"
proof -
  let ?a = "lookup_field meta"
  let ?ms = "matching holds records (batch_keys ?a avd)"
  from bulk_update_run[where env=env and meta=meta and queryset=queryset and avd=avd
         and handle=handle and holds=holds and records=records and column=column and t=t,
         OF wf filter count iter attr hash uniq single exist child]
  obtain us where
    res: "BulkListSerializer_update env meta queryset avd t =
           (t @ [(QuerysetFilter queryset (?a @ ''__in'') (batch_keys ?a avd),
                  Inr (handle (batch_keys ?a avd))),
                 (QuerysetCount (handle (batch_keys ?a avd)),
                  Inr (VInt (int (length (remdups (batch_ids ?a avd)))))),
                 (QuerysetIter (handle (batch_keys ?a avd)), Inr (VList ?ms))]
              @ loop_calls ?a avd column ?ms us,
            Inr us)"
    and lenu: "length us = length (remdups (batch_ids ?a avd))"
    by blast
  have lastp: "payload_for ?a avd v = VDict (AList.delete ?a q)"
    if "avd = xs @ q # ys" "payload_id ?a q = Inr k" "\<forall>p\<in>set ys. payload_id ?a p \<noteq> Inr k"
       "int_value v = Some k"
    for xs q ys k v
    using that last_with_id_last[of ?a q k ys xs] by (simp add: payload_for_def)
  show ?thesis
    apply (rule exI[of _ us])
    apply (intro conjI allI impI)
       apply (rule res)
      apply (rule lenu)
     apply (rule length_batch_keys)
    apply (elim conjE)
    apply (erule (3) lastp)
    done
qed

text \<open>
  Three payloads, the first and the third for record 1 (the third gives the identifier
  as the string \<^verbatim>\<open>'1'\<close>): the store is asked for the keys 1 and 2 and counts two
  records, two records are updated, record 1 with the third payload.
\<close>

theorem bulk_update_last_duplicate_wins_witness:
  "BulkListSerializer_update example_child None (VObj 0)
     [[(''id'', VInt 1), (''name'', VStr ''a'')], [(''id'', VInt 2), (''name'', VStr ''b'')],
      [(''id'', VStr ''1''), (''name'', VStr ''c'')]] []
   = ([(QuerysetFilter (VObj 0) ''id__in'' [1, 2], Inr (VList [VInt 1, VInt 2])),
       (QuerysetCount (VList [VInt 1, VInt 2]), Inr (VInt 2)),
       (QuerysetIter (VList [VInt 1, VInt 2]), Inr (VList [VObj 1, VObj 2])),
       (Getattr (VObj 1) ''id'', Inr (VInt 1)),
       (ChildUpdate (VObj 1) (VDict [(''name'', VStr ''c'')]), Inr (VObj 1)),
       (Getattr (VObj 2) ''id'', Inr (VInt 2)),
       (ChildUpdate (VObj 2) (VDict [(''name'', VStr ''b'')]), Inr (VObj 2))],
      Inr [VObj 1, VObj 2])"
proof -
  let ?avd = "[[(''id'', VInt 1), (''name'', VStr ''a'')], [(''id'', VInt 2), (''name'', VStr ''b'')],
      [(''id'', VStr ''1''), (''name'', VStr ''c'')]]"
  have p: "parse_int ''1'' = Some 1" by code_simp
  have h1: "\<forall>p\<in>set ?avd. \<exists>k. payload_id (lookup_field None) p = Inr k"
    by (simp add: payload_id_def lookup_field_def p)
  have h3: "example_child t (QuerysetFilter (VObj 0) (lookup_field None @ ''__in'') keys)
              = Inr (example_handle keys)" for t keys
    by (simp add: example_child_def)
  have h4: "example_child t (QuerysetCount (example_handle keys))
              = Inr (VInt (int (length (matching example_holds example_records keys))))" for t keys
    by (simp add: example_child_def example_keys_handle)
  have h5: "example_child t (QuerysetIter (example_handle keys))
              = Inr (VList (matching example_holds example_records keys))" for t keys
    by (simp add: example_child_def example_keys_handle)
  have h6: "example_child t (Getattr r (lookup_field None)) = Inr (example_column r)"
    if "r \<in> set example_records" for t r
    by (simp add: example_child_def lookup_field_def)
  have h7: "\<forall>r\<in>set example_records. hashable (example_column r)"
    by (simp add: example_records_def)
  have h8: "\<forall>k. length (filter (\<lambda>r. example_holds r k) example_records) \<le> 1"
    by (simp add: example_holds_def example_records_def)
  have h9: "\<forall>r\<in>set example_records. \<forall>k k'. example_holds r k \<longrightarrow> example_holds r k' \<longrightarrow> k = k'"
    by (simp add: example_holds_def example_records_def)
  have h10: "\<forall>k\<in>set (batch_ids (lookup_field None) ?avd). \<exists>r\<in>set example_records. example_holds r k"
    by (simp add: batch_ids_def payload_id_def lookup_field_def example_holds_def
                  example_records_def p)
  have h11: "\<exists>u. example_child t (ChildUpdate obj d) = Inr u" for t obj d
    by (simp add: example_child_def)
  have ev: ?thesis
    by (simp add: bulk_eval Let_def p)
  show ?thesis
    using bulk_update_last_duplicate_wins[where env=example_child and meta=None
            and queryset="VObj 0" and avd="?avd" and handle=example_handle
            and holds=example_holds and records=example_records and column=example_column
            and t="[]", OF h1 h3 h4 h5 h6 h7 h8 h9 h10 h11]
    by (simp only: ev)
qed

text \<open>
  Claim C10. If some payload has no identifier entry, or one that \<^verbatim>\<open>int\<close> rejects, the
  method raises the error of the first such payload: \<^verbatim>\<open>KeyError\<close> for the missing
  entry, and for the conversion \<^verbatim>\<open>ValueError\<close>, \<^verbatim>\<open>TypeError\<close> or, for an infinite
  floating-point number, \<^verbatim>\<open>OverflowError\<close>; it is not a validation error. The result is
  the same for every queryset and every collaborator, and the history of calls is
  unchanged: the store is not asked and no record is written.
\<close>

theorem bulk_update_malformed_identifier:
  assumes bad: "\<exists>p\<in>set avd. \<not> dict_contains p (lookup_field meta) \<or>
                  (\<exists>v. dict_getitem p (lookup_field meta) = Inr v \<and> (\<forall>k. py_int v \<noteq> Inr k))"
  shows "\<exists>e. (\<forall>env queryset t.
                 BulkListSerializer_update env meta queryset avd t = (t, Inl e))
            \<and> (e = KeyError \<or> e = ValueError \<or> e = TypeError \<or> e = OverflowError)
            \<and> (\<exists>p\<in>set avd.
                  (e = KeyError \<and> \<not> dict_contains p (lookup_field meta)) \<or>
                  ((e = ValueError \<or> e = TypeError \<or> e = OverflowError) \<and>
                   (\<exists>v. dict_getitem p (lookup_field meta) = Inr v \<and> py_int v = Inl e)))"
proof -
  let ?a = "lookup_field meta"
  have "\<exists>p\<in>set avd. \<forall>k. payload_id ?a p \<noteq> Inr k"
    using bad
    by (auto simp: payload_id_def dict_contains_def dict_getitem_def split: option.splits)
  from build_by_id_first_bad[OF this, of "[]"]
  obtain p e where p: "p \<in> set avd" and e: "payload_id ?a p = Inl e"
    and fail: "build_by_id ?a [] avd = Inl e" by blast
  have run: "BulkListSerializer_update env meta queryset avd t = (t, Inl e)"
    for env queryset t
    using fail by (simp add: BulkListSerializer_update_def Let_def andthen_def lift_def)
  from payload_id_error[OF e] p run show ?thesis by blast
qed

text \<open>
  A payload without identifier, the identifier \<^verbatim>\<open>'one'\<close>, the identifier \<^verbatim>\<open>None\<close>, the
  identifier \<^verbatim>\<open>float('nan')\<close>.
\<close>

theorem bulk_update_malformed_identifier_witness:
  "BulkListSerializer_update example_child None (VObj 0)
     [[(''id'', VInt 1), (''name'', VStr ''a'')], [(''name'', VStr ''b'')]] [] = ([], Inl KeyError)
   \<and> BulkListSerializer_update example_child None (VObj 0)
     [[(''id'', VStr ''one'')]] [] = ([], Inl ValueError)
   \<and> BulkListSerializer_update example_child None (VObj 0)
     [[(''id'', VNone)]] [] = ([], Inl TypeError)
   \<and> BulkListSerializer_update example_child None (VObj 0)
     [[(''id'', VFloat NaN)]] [] = ([], Inl ValueError)"
proof -
  have p: "parse_int ''one'' = None" by code_simp
  have h1: "\<exists>p\<in>set [[(''id'', VInt 1), (''name'', VStr ''a'')], [(''name'', VStr ''b'')]].
             \<not> dict_contains p (lookup_field None) \<or>
             (\<exists>v. dict_getitem p (lookup_field None) = Inr v \<and> (\<forall>k. py_int v \<noteq> Inr k))"
    by (simp add: dict_contains_def lookup_field_def)
  have ev: ?thesis
    by (simp add: bulk_eval Let_def p)
  show ?thesis
    using bulk_update_malformed_identifier[where meta=None, OF h1]
    by (simp only: ev)
qed

text \<open>
  The identifier \<^verbatim>\<open>float('inf')\<close>, which \<^verbatim>\<open>int\<close> does not convert: the error is
  \<^verbatim>\<open>OverflowError\<close>, none of \<^verbatim>\<open>KeyError\<close>, \<^verbatim>\<open>ValueError\<close> and \<^verbatim>\<open>TypeError\<close>.
\<close>

theorem bulk_update_infinite_identifier_counterexample:
  "dict_getitem [(''id'', VFloat (Infinity True))] (lookup_field None) = Inr (VFloat (Infinity True))
   \<and> (\<forall>k. py_int (VFloat (Infinity True)) \<noteq> Inr k)
   \<and> BulkListSerializer_update example_child None (VObj 0)
       [[(''id'', VFloat (Infinity True))]] [] = ([], Inl OverflowError)
   \<and> OverflowError \<noteq> KeyError \<and> OverflowError \<noteq> ValueError \<and> OverflowError \<noteq> TypeError"
  by (simp add: bulk_eval Let_def)

subsection \<open>The store's side of the bulk update\<close>

text \<open>
  A store with a text column as identifier finds record 1 for the key 1; the record's
  attribute is the string \<^verbatim>\<open>'1'\<close>, which is no key of the dictionary, and the child
  serializer is given \<^verbatim>\<open>None\<close>.
\<close>

lemma bulk_update_text_column:
  "BulkListSerializer_update text_store None (VObj 0)
     [[(''id'', VInt 1), (''name'', VStr ''a'')]] []
   = ([(QuerysetFilter (VObj 0) ''id__in'' [1], Inr (VList [VInt 1])),
       (QuerysetCount (VList [VInt 1]), Inr (VInt 1)),
       (QuerysetIter (VList [VInt 1]), Inr (VList [VObj 1])),
       (Getattr (VObj 1) ''id'', Inr (VStr ''1'')),
       (ChildUpdate (VObj 1) VNone, Inr (VObj 1))],
      Inr [VObj 1])"
  by (simp add: bulk_eval text_store_def text_holds_def Let_def)

text \<open>An error of the store's query is the error of the method.\<close>

lemma bulk_update_refusing_store:
  "BulkListSerializer_update refusing_store None (VObj 0)
     [[(''id'', VInt 1), (''name'', VStr ''a'')]] []
   = ([(QuerysetFilter (VObj 0) ''id__in'' [1], Inr (VList [VInt 1])),
       (QuerysetCount (VList [VInt 1]), Inl OverflowError)],
      Inl OverflowError)"
  by (simp add: bulk_eval refusing_store_def Let_def)

section \<open>Properties of the single-record serializer\<close>

lemma update_fresh: "k \<notin> fst ` set al \<Longrightarrow> AList.update k v al = al @ [(k, v)]"
  by (induction al) auto

lemma scalar_data_Cons:
  "scalar_data ((name, f) # flds) vd =
     (case map_of vd name of None \<Rightarrow> [] | Some v \<Rightarrow> if is_plural f then [] else [(name, v)])
     @ scalar_data flds vd"
  by (simp add: scalar_data_def)

lemma plural_data_Cons:
  "plural_data ((name, f) # flds) vd =
     (case map_of vd name of None \<Rightarrow> [] | Some v \<Rightarrow> if is_plural f then [(name, v)] else [])
     @ plural_data flds vd"
  by (simp add: plural_data_def)

lemma partition_fields_eq:
  "distinct (map fst flds) \<Longrightarrow> fst ` set flds \<inter> fst ` set data = {} \<Longrightarrow>
   fst ` set flds \<inter> fst ` set many = {} \<Longrightarrow>
     partition_fields flds vd data many = (data @ scalar_data flds vd, many @ plural_data flds vd)"
proof (induction flds arbitrary: data many)
  case Nil
  then show ?case by (simp add: scalar_data_def plural_data_def)
next
  case (Cons nf flds)
  obtain name f where nf: "nf = (name, f)" by (cases nf)
  from Cons.prems nf have d: "distinct (map fst flds)" and fresh: "name \<notin> fst ` set flds"
    and nd: "name \<notin> fst ` set data" and nm: "name \<notin> fst ` set many"
    and dd: "fst ` set flds \<inter> fst ` set data = {}" and dm: "fst ` set flds \<inter> fst ` set many = {}"
    by auto
  show ?case
  proof (cases "map_of vd name")
    case None
    then show ?thesis
      using Cons.IH[OF d dd dm] nf by (simp add: scalar_data_Cons plural_data_Cons)
  next
    case (Some v)
    show ?thesis
    proof (cases "is_plural f")
      case True
      have "fst ` set flds \<inter> fst ` set (many @ [(name, v)]) = {}"
        using dm fresh by auto
      from Cons.IH[OF d dd this] show ?thesis
        using nf Some True nm by (simp add: scalar_data_Cons plural_data_Cons update_fresh)
    next
      case False
      have "fst ` set flds \<inter> fst ` set (data @ [(name, v)]) = {}"
        using dd fresh by auto
      from Cons.IH[OF d this dm] show ?thesis
        using nf Some False nd by (simp add: scalar_data_Cons plural_data_Cons update_fresh)
    qed
  qed
qed

lemma setattr_all_run:
  assumes ok: "\<forall>t c. \<exists>v. env t c = Inr v"
  shows "\<exists>rs. length rs = length many \<and>
           setattr_all env instance many t =
             (t @ map (\<lambda>((name, v), r). (Setattr instance name v, Inr r)) (zip many rs), Inr ())"
proof (induction many arbitrary: t)
  case Nil
  then show ?case by (simp add: return_def)
next
  case (Cons nv many)
  obtain name v where nv: "nv = (name, v)" by (cases nv)
  from ok obtain r where r: "env t (Setattr instance name v) = Inr r" by blast
  from Cons.IH[of "t @ [(Setattr instance name v, Inr r)]"] obtain rs where
    rs: "length rs = length many"
    and run: "setattr_all env instance many (t @ [(Setattr instance name v, Inr r)]) =
             ((t @ [(Setattr instance name v, Inr r)]) @
                map (\<lambda>((name, v), r). (Setattr instance name v, Inr r)) (zip many rs), Inr ())"
    by blast
  have "length (r # rs) = length (nv # many)" using rs by simp
  moreover have "setattr_all env instance (nv # many) t =
             (t @ map (\<lambda>((name, v), r). (Setattr instance name v, Inr r)) (zip (nv # many) (r # rs)), Inr ())"
    using nv r run by (simp add: andthen_def perform_def)
  ultimately show ?case by blast
qed

lemma set_all_run:
  assumes ok: "\<forall>t c. \<exists>v. env t c = Inr v"
  shows "\<exists>ms. length ms = length many \<and>
           set_all env instance many t =
             (t @ concat (map (\<lambda>((name, v), m, r). [(Getattr instance name, Inr m), (RelatedSet m v, Inr r)])
                           (zip many ms)), Inr ())"
proof (induction many arbitrary: t)
  case Nil
  then show ?case by (simp add: return_def)
next
  case (Cons nv many)
  obtain name v where nv: "nv = (name, v)" by (cases nv)
  from ok obtain m where m: "env t (Getattr instance name) = Inr m" by blast
  let ?t1 = "t @ [(Getattr instance name, Inr m)]"
  from ok obtain r where r: "env ?t1 (RelatedSet m v) = Inr r" by blast
  let ?t2 = "?t1 @ [(RelatedSet m v, Inr r)]"
  from Cons.IH[of ?t2] obtain ms where
    ms: "length ms = length many"
    and run: "set_all env instance many ?t2 =
             (?t2 @ concat (map (\<lambda>((name, v), m, r). [(Getattr instance name, Inr m), (RelatedSet m v, Inr r)])
                           (zip many ms)), Inr ())"
    by blast
  have "length ((m, r) # ms) = length (nv # many)" using ms by simp
  moreover have "set_all env instance (nv # many) t =
             (t @ concat (map (\<lambda>((name, v), m, r). [(Getattr instance name, Inr m), (RelatedSet m v, Inr r)])
                           (zip (nv # many) ((m, r) # ms))), Inr ())"
    using nv m r run by (simp add: andthen_def perform_def)
  ultimately show ?case by blast
qed

text \<open>
  Claim C4. With collaborators that do not raise, \<^verbatim>\<open>create\<close> makes exactly these calls,
  in this order: the store's \<^verbatim>\<open>create\<close> with the scalar validated fields only; for each
  plural field its attachment to the record the store returned (\<^verbatim>\<open>setattr\<close> in the first
  variant, the related manager's \<^verbatim>\<open>set\<close> in the extended one); \<^verbatim>\<open>save\<close> on that
  record. It returns that record.
\<close>

theorem create_scalars_then_plurals_then_save:
  assumes names: "distinct (map fst (self_fields s))"
      and ok: "\<forall>t c. \<exists>v. env t c = Inr v"
  shows "(\<exists>instance rs r0.
            create env s validated_data t =
              (t @ (ObjectsCreate (scalar_data (self_fields s) validated_data), Inr instance)
                   # map (\<lambda>((name, v), r). (Setattr instance name v, Inr r))
                         (zip (plural_data (self_fields s) validated_data) rs)
                   @ [(Save instance, Inr r0)],
               Inr instance)
          \<and> length rs = length (plural_data (self_fields s) validated_data))
       \<and> (\<exists>instance ms r0.
            create_ext env s validated_data t =
              (t @ (ObjectsCreate (scalar_data (self_fields s) validated_data), Inr instance)
                   # concat (map (\<lambda>((name, v), m, r).
                                    [(Getattr instance name, Inr m), (RelatedSet m v, Inr r)])
                                 (zip (plural_data (self_fields s) validated_data) ms))
                   @ [(Save instance, Inr r0)],
               Inr instance)
          \<and> length ms = length (plural_data (self_fields s) validated_data))"
proof -
  let ?d = "scalar_data (self_fields s) validated_data"
  let ?m = "plural_data (self_fields s) validated_data"
  have part: "partition_fields (self_fields s) validated_data [] [] = (?d, ?m)"
    using partition_fields_eq[OF names, of "[]" "[]" validated_data] by simp
  from ok obtain inst where i: "env t (ObjectsCreate ?d) = Inr inst" by blast
  let ?t1 = "t @ [(ObjectsCreate ?d, Inr inst)]"
  from setattr_all_run[OF ok, of ?m inst ?t1] obtain rs where
    rs: "length rs = length ?m"
    and run1: "setattr_all env inst ?m ?t1 =
                 (?t1 @ map (\<lambda>((name, v), r). (Setattr inst name v, Inr r)) (zip ?m rs), Inr ())"
    by blast
  let ?t2 = "?t1 @ map (\<lambda>((name, v), r). (Setattr inst name v, Inr r)) (zip ?m rs)"
  from ok obtain r0 where r0: "env ?t2 (Save inst) = Inr r0" by blast
  have v1: "create env s validated_data t =
              (t @ (ObjectsCreate ?d, Inr inst)
                   # map (\<lambda>((name, v), r). (Setattr inst name v, Inr r)) (zip ?m rs)
                   @ [(Save inst, Inr r0)], Inr inst)"
    using part i run1 r0 by (simp add: create_def andthen_def perform_def return_def)
  from set_all_run[OF ok, of ?m inst ?t1] obtain ms where
    ms: "length ms = length ?m"
    and run2: "set_all env inst ?m ?t1 =
             (?t1 @ concat (map (\<lambda>((name, v), m, r). [(Getattr inst name, Inr m), (RelatedSet m v, Inr r)])
                           (zip ?m ms)), Inr ())"
    by blast
  let ?t3 = "?t1 @ concat (map (\<lambda>((name, v), m, r). [(Getattr inst name, Inr m), (RelatedSet m v, Inr r)])
                           (zip ?m ms))"
  from ok obtain r1 where r1: "env ?t3 (Save inst) = Inr r1" by blast
  have v2: "create_ext env s validated_data t =
              (t @ (ObjectsCreate ?d, Inr inst)
                   # concat (map (\<lambda>((name, v), m, r). [(Getattr inst name, Inr m), (RelatedSet m v, Inr r)])
                           (zip ?m ms))
                   @ [(Save inst, Inr r1)], Inr inst)"
    using part i run2 r1 by (simp add: create_ext_def andthen_def perform_def return_def)
  from v1 rs v2 ms show ?thesis by blast
qed

lemma example_store_ok: "\<forall>t c. \<exists>v. example_store t c = Inr v"
proof (intro allI)
  fix t c
  show "\<exists>v. example_store t c = Inr v"
    by (cases c) (auto simp: example_store_def split: pyval.splits option.splits)
qed

text \<open>
  A name, two tags and a value for no field of the serializer.
\<close>

theorem create_scalars_then_plurals_then_save_witness:
  "create example_store example_serializer
     [(''name'', VStr ''a''), (''tags'', VList [VInt 1, VInt 2]), (''extra'', VInt 5)] []
   = ([(ObjectsCreate [(''name'', VStr ''a'')], Inr (VObj 7)),
       (Setattr (VObj 7) ''tags'' (VList [VInt 1, VInt 2]), Inr VNone),
       (Save (VObj 7), Inr VNone)],
      Inr (VObj 7))
   \<and> create_ext example_store example_serializer
     [(''name'', VStr ''a''), (''tags'', VList [VInt 1, VInt 2]), (''extra'', VInt 5)] []
   = ([(ObjectsCreate [(''name'', VStr ''a'')], Inr (VObj 7)),
       (Getattr (VObj 7) ''tags'', Inr (VObj 8)),
       (RelatedSet (VObj 8) (VList [VInt 1, VInt 2]), Inr VNone),
       (Save (VObj 7), Inr VNone)],
      Inr (VObj 7))"
proof -
  have h1: "distinct (map fst (self_fields example_serializer))"
    by (simp add: example_serializer_def)
  have ev: ?thesis
    by (simp add: create_def create_ext_def example_serializer_def example_store_def
          is_plural_def andthen_def perform_def return_def)
  show ?thesis
    using create_scalars_then_plurals_then_save[OF h1 example_store_ok]
    by (simp only: ev)
qed

text \<open>
  Claim C5. In a nested serializer whose input has the identifier, the first variant
  makes one call, the store's \<^verbatim>\<open>get\<close> with that identifier, and returns its answer (or
  raises its exception): the framework's validation is not called. The extended variant
  goes on, when nothing raises: it constructs a serializer for the fetched record and the
  input in partial mode, validates it, saves it and returns what \<^verbatim>\<open>save\<close> returned.
\<close>

theorem to_internal_value_nested_by_identifier:
  assumes nested: "\<not> is_top s"
      and ident: "map_of data (lookup_field (update_lookup_field s)) = Some v"
  shows "to_internal_value env s data t =
           (t @ [(ObjectsGet (lookup_field (update_lookup_field s)) v,
                  env t (ObjectsGet (lookup_field (update_lookup_field s)) v))],
            env t (ObjectsGet (lookup_field (update_lookup_field s)) v))
       \<and> ((\<forall>t c. \<exists>r. env t c = Inr r) \<longrightarrow>
            (\<exists>inst ser r saved.
               to_internal_value_ext env s data t =
                 (t @ [(ObjectsGet (lookup_field (update_lookup_field s)) v, Inr inst),
                       (Construct inst data True, Inr ser),
                       (IsValid ser, Inr r),
                       (SerializerSave ser, Inr saved)],
                  Inr saved)))"
proof (intro conjI impI)
  let ?a = "lookup_field (update_lookup_field s)"
  show "to_internal_value env s data t =
           (t @ [(ObjectsGet ?a v, env t (ObjectsGet ?a v))], env t (ObjectsGet ?a v))"
    using nested ident
    by (simp add: to_internal_value_def Let_def dict_contains_def dict_getitem_def
          andthen_def lift_def perform_def)
next
  let ?a = "lookup_field (update_lookup_field s)"
  assume ok: "\<forall>t c. \<exists>r. env t c = Inr r"
  from ok obtain inst where i: "env t (ObjectsGet ?a v) = Inr inst" by blast
  let ?t1 = "t @ [(ObjectsGet ?a v, Inr inst)]"
  from ok obtain ser where c: "env ?t1 (Construct inst data True) = Inr ser" by blast
  let ?t2 = "?t1 @ [(Construct inst data True, Inr ser)]"
  from ok obtain r where r: "env ?t2 (IsValid ser) = Inr r" by blast
  let ?t3 = "?t2 @ [(IsValid ser, Inr r)]"
  from ok obtain saved where sv: "env ?t3 (SerializerSave ser) = Inr saved" by blast
  have "to_internal_value_ext env s data t =
          (t @ [(ObjectsGet ?a v, Inr inst), (Construct inst data True, Inr ser),
                (IsValid ser, Inr r), (SerializerSave ser, Inr saved)], Inr saved)"
    using nested ident i c r sv
    by (simp add: to_internal_value_ext_def Let_def dict_contains_def dict_getitem_def
          nested_save_def andthen_def lift_def perform_def)
  then show "\<exists>inst ser r saved.
               to_internal_value_ext env s data t =
                 (t @ [(ObjectsGet ?a v, Inr inst), (Construct inst data True, Inr ser),
                       (IsValid ser, Inr r), (SerializerSave ser, Inr saved)], Inr saved)"
    by blast
qed

text \<open>
  Identifier 5 in the input of a nested serializer.
\<close>

theorem to_internal_value_nested_by_identifier_witness:
  "to_internal_value example_store nested_serializer [(''id'', VInt 5), (''name'', VStr ''a'')] []
     = ([(ObjectsGet ''id'' (VInt 5), Inr (VObj 5))], Inr (VObj 5))
   \<and> to_internal_value_ext example_store nested_serializer [(''id'', VInt 5), (''name'', VStr ''a'')] []
     = ([(ObjectsGet ''id'' (VInt 5), Inr (VObj 5)),
         (Construct (VObj 5) [(''id'', VInt 5), (''name'', VStr ''a'')] True, Inr (VObj 9)),
         (IsValid (VObj 9), Inr VNone),
         (SerializerSave (VObj 9), Inr (VObj 5))], Inr (VObj 5))"
proof -
  have h1: "\<not> is_top nested_serializer"
    by (simp add: is_top_def nested_serializer_def)
  have h2: "map_of [(''id'', VInt 5), (''name'', VStr ''a'')]
              (lookup_field (update_lookup_field nested_serializer)) = Some (VInt 5)"
    by (simp add: lookup_field_def nested_serializer_def)
  have ev: ?thesis
    by (simp add: to_internal_value_def to_internal_value_ext_def Let_def is_top_def
          nested_serializer_def lookup_field_def dict_contains_def dict_getitem_def
          nested_save_def andthen_def lift_def perform_def example_store_def)
  show ?thesis
    using to_internal_value_nested_by_identifier[OF h1 h2, of example_store "[]"]
    by (simp only: ev)
qed

lemma request_method_ext:
  "get_request_method r = Inr m \<Longrightarrow> get_request_method_ext r = Some m"
  by (cases r) auto

text \<open>
  Claim C6. At the root or at the top of a list, after the framework's validation returned
  the dictionary \<open>ret\<close>: if the parent is a \<^verbatim>\<open>BulkListSerializer\<close> and the method is
  \<^verbatim>\<open>PUT\<close> or \<^verbatim>\<open>PATCH\<close>, the result is \<open>ret\<close> with the identifier key bound to what
  the identifier field's \<^verbatim>\<open>get_value\<close> reads from the raw input (the lookup field is
  named and is a field of the serializer); with another parent or another method the
  result is \<open>ret\<close> as it is, and the framework's validation was the only call. Both
  variants agree; the extended one also returns \<open>ret\<close> as it is when the context gives
  no request.
\<close>

theorem to_internal_value_injects_identifier:
  assumes top: "is_top s"
      and valid: "env t (SuperToInternalValue data) = Inr (VDict ret)"
  shows "(get_request_method (view_request s) = Inr m
            \<and> parent_is_bulk s \<and> m \<in> {''PUT'', ''PATCH''}
            \<and> lookup_field (update_lookup_field s) \<noteq> []
            \<and> map_of (self_fields s) (lookup_field (update_lookup_field s)) = Some f
            \<and> env (t @ [(SuperToInternalValue data, Inr (VDict ret))])
                  (FieldGetValue (lookup_field (update_lookup_field s)) data) = Inr id_value
          \<longrightarrow> to_internal_value env s data t =
                (t @ [(SuperToInternalValue data, Inr (VDict ret)),
                      (FieldGetValue (lookup_field (update_lookup_field s)) data, Inr id_value)],
                 Inr (VDict (AList.update (lookup_field (update_lookup_field s)) id_value ret)))
            \<and> to_internal_value_ext env s data t = to_internal_value env s data t
            \<and> map_of (AList.update (lookup_field (update_lookup_field s)) id_value ret)
                  (lookup_field (update_lookup_field s)) = Some id_value)
       \<and> (get_request_method (view_request s) = Inr m
            \<and> (\<not> parent_is_bulk s \<or> m \<notin> {''PUT'', ''PATCH''})
          \<longrightarrow> to_internal_value env s data t =
                (t @ [(SuperToInternalValue data, Inr (VDict ret))], Inr (VDict ret))
            \<and> to_internal_value_ext env s data t = to_internal_value env s data t)
       \<and> (get_request_method_ext (view_request s) = None
          \<longrightarrow> to_internal_value_ext env s data t =
                (t @ [(SuperToInternalValue data, Inr (VDict ret))], Inr (VDict ret)))"
proof (intro conjI impI)
  let ?a = "lookup_field (update_lookup_field s)"
  let ?t1 = "t @ [(SuperToInternalValue data, Inr (VDict ret))]"
  assume inj: "get_request_method (view_request s) = Inr m
            \<and> parent_is_bulk s \<and> m \<in> {''PUT'', ''PATCH''} \<and> ?a \<noteq> []
            \<and> map_of (self_fields s) ?a = Some f
            \<and> env ?t1 (FieldGetValue ?a data) = Inr id_value"
  then have ext: "get_request_method_ext (view_request s) = Some m"
    by (simp add: request_method_ext)
  have v1: "to_internal_value env s data t =
                (t @ [(SuperToInternalValue data, Inr (VDict ret)),
                      (FieldGetValue ?a data, Inr id_value)],
                 Inr (VDict (AList.update ?a id_value ret)))"
    using top valid inj
    by (simp add: to_internal_value_def Let_def inject_id_def andthen_def lift_def perform_def)
  have v2: "to_internal_value_ext env s data t =
                (t @ [(SuperToInternalValue data, Inr (VDict ret)),
                      (FieldGetValue ?a data, Inr id_value)],
                 Inr (VDict (AList.update ?a id_value ret)))"
    using top valid inj ext
    by (auto simp add: to_internal_value_ext_def Let_def inject_id_def andthen_def lift_def perform_def)
  show "to_internal_value env s data t =
                (t @ [(SuperToInternalValue data, Inr (VDict ret)),
                      (FieldGetValue ?a data, Inr id_value)],
                 Inr (VDict (AList.update ?a id_value ret)))"
    by (rule v1)
  show "to_internal_value_ext env s data t = to_internal_value env s data t"
    by (simp only: v1 v2)
  show "map_of (AList.update ?a id_value ret) ?a = Some id_value"
    by (simp add: AList.update_conv')
next
  let ?a = "lookup_field (update_lookup_field s)"
  assume no: "get_request_method (view_request s) = Inr m
            \<and> (\<not> parent_is_bulk s \<or> m \<notin> {''PUT'', ''PATCH''})"
  then have ext: "get_request_method_ext (view_request s) = Some m"
    by (simp add: request_method_ext)
  have v1: "to_internal_value env s data t =
                (t @ [(SuperToInternalValue data, Inr (VDict ret))], Inr (VDict ret))"
    using top valid no
    by (auto simp add: to_internal_value_def Let_def andthen_def lift_def perform_def return_def)
  have v2: "to_internal_value_ext env s data t =
                (t @ [(SuperToInternalValue data, Inr (VDict ret))], Inr (VDict ret))"
    using top valid no ext
    by (auto simp add: to_internal_value_ext_def Let_def andthen_def lift_def perform_def return_def)
  show "to_internal_value env s data t =
                (t @ [(SuperToInternalValue data, Inr (VDict ret))], Inr (VDict ret))"
    by (rule v1)
  show "to_internal_value_ext env s data t = to_internal_value env s data t"
    by (simp only: v1 v2)
next
  assume "get_request_method_ext (view_request s) = None"
  then show "to_internal_value_ext env s data t =
                (t @ [(SuperToInternalValue data, Inr (VDict ret))], Inr (VDict ret))"
    using top valid
    by (simp add: to_internal_value_ext_def Let_def andthen_def lift_def perform_def return_def)
qed

text \<open>
  The same input under \<^verbatim>\<open>PUT\<close> and under \<^verbatim>\<open>POST\<close>.
\<close>

theorem to_internal_value_injects_identifier_witness:
  "to_internal_value example_store (bulk_child ''PUT'') [(''id'', VInt 3), (''name'', VStr ''a'')] []
     = ([(SuperToInternalValue [(''id'', VInt 3), (''name'', VStr ''a'')], Inr (VDict [(''name'', VStr ''a'')])),
         (FieldGetValue ''id'' [(''id'', VInt 3), (''name'', VStr ''a'')], Inr (VInt 3))],
        Inr (VDict [(''name'', VStr ''a''), (''id'', VInt 3)]))
   \<and> to_internal_value_ext example_store (bulk_child ''PUT'') [(''id'', VInt 3), (''name'', VStr ''a'')] []
     = to_internal_value example_store (bulk_child ''PUT'') [(''id'', VInt 3), (''name'', VStr ''a'')] []
   \<and> to_internal_value example_store (bulk_child ''POST'') [(''id'', VInt 3), (''name'', VStr ''a'')] []
     = ([(SuperToInternalValue [(''id'', VInt 3), (''name'', VStr ''a'')], Inr (VDict [(''name'', VStr ''a'')]))],
        Inr (VDict [(''name'', VStr ''a'')]))
   \<and> to_internal_value_ext example_store (bulk_child ''POST'') [(''id'', VInt 3), (''name'', VStr ''a'')] []
     = to_internal_value example_store (bulk_child ''POST'') [(''id'', VInt 3), (''name'', VStr ''a'')] []"
proof -
  let ?data = "[(''id'', VInt 3), (''name'', VStr ''a'')]"
  let ?ret = "[(''name'', VStr ''a'')]"
  have top: "is_top (bulk_child m)" for m
    by (simp add: is_top_def bulk_child_def)
  have valid: "example_store [] (SuperToInternalValue ?data) = Inr (VDict ?ret)"
    by (simp add: example_store_def)
  have put: "get_request_method (view_request (bulk_child ''PUT'')) = Inr ''PUT'' \<and>
            parent_is_bulk (bulk_child ''PUT'') \<and> ''PUT'' \<in> {''PUT'', ''PATCH''}
            \<and> lookup_field (update_lookup_field (bulk_child ''PUT'')) \<noteq> []
            \<and> map_of (self_fields (bulk_child ''PUT'')) (lookup_field (update_lookup_field (bulk_child ''PUT'')))
                = Some \<lparr>field_class = OtherField, field_source = ''id''\<rparr>
            \<and> example_store ([] @ [(SuperToInternalValue ?data, Inr (VDict ?ret))])
                  (FieldGetValue (lookup_field (update_lookup_field (bulk_child ''PUT''))) ?data) = Inr (VInt 3)"
    by (simp add: parent_is_bulk_def bulk_child_def lookup_field_def example_store_def)
  have post: "get_request_method (view_request (bulk_child ''POST'')) = Inr ''POST'' \<and>
            (\<not> parent_is_bulk (bulk_child ''POST'') \<or> ''POST'' \<notin> {''PUT'', ''PATCH''})"
    by (simp add: bulk_child_def)
  have ev: ?thesis
    by (simp add: to_internal_value_def to_internal_value_ext_def Let_def is_top_def
          parent_is_bulk_def bulk_child_def lookup_field_def inject_id_def
          andthen_def lift_def perform_def return_def example_store_def)
  show ?thesis
    using to_internal_value_injects_identifier[where env=example_store and t="[]"
         and s="bulk_child ''PUT''" and m="''PUT''" and id_value="VInt 3"
         and f="\<lparr>field_class = OtherField, field_source = ''id''\<rparr>", OF top valid] put
      to_internal_value_injects_identifier[where env=example_store and t="[]"
         and s="bulk_child ''POST''" and m="''POST''", OF top valid] post
    by (simp only: ev)
qed

subsection \<open>The constructor\<close>

lemma fold_delete_filter:
  "fold AList.delete ks al = filter (\<lambda>p. fst p \<notin> set ks) al"
proof (induction ks arbitrary: al)
  case Nil
  then show ?case by simp
next
  case (Cons k ks)
  have "AList.delete k al = filter (\<lambda>p. fst p \<noteq> k) al"
    by (induction al) auto
  then show ?case using Cons by (simp add: conj_commute)
qed

lemma pop_unlisted:
  "fold AList.delete [n \<leftarrow> map fst declared. n \<notin> set allowed] declared
     = filter (\<lambda>p. fst p \<in> set allowed) declared"
  unfolding fold_delete_filter by (rule filter_cong) auto

text \<open>
  What the constructor does after the base constructor has returned: with \<^verbatim>\<open>fields\<close> a
  non-empty string, the serializer keeps exactly its fields whose names are in the
  comma-separated list; with \<^verbatim>\<open>fields\<close> absent or \<^verbatim>\<open>None\<close> the fields are unchanged.
\<close>

lemma init_after_base_constructor:
  assumes super: "env t (SuperInit kwargs) = Inr r"
  shows "(map_of kwargs ''fields'' = Some (VStr names) \<and> names \<noteq> [] \<longrightarrow>
            (\<exists>flds. BaseModelSerializer_init env declared kwargs t
                       = (t @ [(SuperInit kwargs, Inr r)], Inr flds)
                  \<and> flds = filter (\<lambda>p. fst p \<in> set (split_comma names)) declared
                  \<and> set (map fst flds) = set (map fst declared) \<inter> set (split_comma names)
                  \<and> (set (split_comma names) \<subseteq> set (map fst declared)
                       \<longrightarrow> set (map fst flds) = set (split_comma names))))
       \<and> (map_of kwargs ''fields'' = None \<or> map_of kwargs ''fields'' = Some VNone \<longrightarrow>
            BaseModelSerializer_init env declared kwargs t
              = (t @ [(SuperInit kwargs, Inr r)], Inr declared))"
proof (intro conjI impI)
  assume f: "map_of kwargs ''fields'' = Some (VStr names) \<and> names \<noteq> []"
  let ?flds = "filter (\<lambda>p. fst p \<in> set (split_comma names)) declared"
  have run: "BaseModelSerializer_init env declared kwargs t
               = (t @ [(SuperInit kwargs, Inr r)], Inr ?flds)"
    using super f
    by (simp add: BaseModelSerializer_init_def Let_def andthen_def perform_def return_def pop_unlisted)
  have keys: "set (map fst ?flds) = set (map fst declared) \<inter> set (split_comma names)"
    by auto
  show "\<exists>flds. BaseModelSerializer_init env declared kwargs t
                       = (t @ [(SuperInit kwargs, Inr r)], Inr flds)
                  \<and> flds = filter (\<lambda>p. fst p \<in> set (split_comma names)) declared
                  \<and> set (map fst flds) = set (map fst declared) \<inter> set (split_comma names)
                  \<and> (set (split_comma names) \<subseteq> set (map fst declared)
                       \<longrightarrow> set (map fst flds) = set (split_comma names))"
    using run keys by blast
next
  assume "map_of kwargs ''fields'' = None \<or> map_of kwargs ''fields'' = Some VNone"
  then show "BaseModelSerializer_init env declared kwargs t
              = (t @ [(SuperInit kwargs, Inr r)], Inr declared)"
    using super
    by (auto simp add: BaseModelSerializer_init_def Let_def andthen_def perform_def return_def)
qed

text \<open>
  The base constructor is called first, with the keyword arguments as they were given:
  \<^verbatim>\<open>fields\<close> is still among them. When it raises, the constructor ends with its error
  and no field is removed.
\<close>

lemma init_base_constructor_first:
  "\<exists>res. BaseModelSerializer_init env declared kwargs t
           = (t @ [(SuperInit kwargs, env t (SuperInit kwargs))], res)
        \<and> (\<forall>e. env t (SuperInit kwargs) = Inl e \<longrightarrow> res = Inl e)"
  by (cases "env t (SuperInit kwargs)")
     (simp_all add: BaseModelSerializer_init_def Let_def andthen_def perform_def return_def lift_def
        split: pyval.splits)

text \<open>
  Claim C7 does not hold of the code. The constructor hands \<^verbatim>\<open>fields\<close> to the base
  constructor before it takes the option out of the keyword arguments. With a base
  constructor that takes the keyword arguments of the framework's serializer classes and
  no other, as the framework's does, the construction with \<^verbatim>\<open>fields='tags,id'\<close> ends
  with its \<^verbatim>\<open>TypeError\<close> and no serializer with the requested fields is made; without the
  option the fields are unchanged.
\<close>

theorem init_with_fields_raises:
  "BaseModelSerializer_init strict_base example_declared [(''fields'', VStr ''tags,id'')] []
     = ([(SuperInit [(''fields'', VStr ''tags,id'')], Inl TypeError)], Inl TypeError)
   \<and> BaseModelSerializer_init strict_base example_declared [(''fields'', VNone)] []
     = ([(SuperInit [(''fields'', VNone)], Inl TypeError)], Inl TypeError)
   \<and> BaseModelSerializer_init strict_base example_declared [(''partial'', VBool True)] []
     = ([(SuperInit [(''partial'', VBool True)], Inr VNone)], Inr example_declared)
   \<and> BaseModelSerializer_init strict_base example_declared [] []
     = ([(SuperInit [], Inr VNone)], Inr example_declared)"
  by (simp add: BaseModelSerializer_init_def Let_def andthen_def perform_def return_def
        strict_base_def base_keywords_def)

subsection \<open>Exceptions of the collaborators\<close>

lemma propagatesI:
  assumes "fst out = t @ new"
      and "\<forall>cr\<in>set (butlast new). \<not> isl (snd cr)"
      and "new \<noteq> [] \<longrightarrow> (\<forall>e. snd (last new) = Inl e \<longrightarrow> snd out = Inl e)"
  shows "propagates t out"
proof -
  have d: "drop (length t) (fst out) = new" and k: "take (length t) (fst out) = t"
    using assms(1) by simp_all
  have l: "new = [] \<or> (case snd (last new) of Inl e \<Rightarrow> snd out = Inl e | Inr v \<Rightarrow> True)"
    using assms(3) by (cases "snd (last new)") auto
  show ?thesis
    unfolding propagates_def Let_def d k using assms(2) l by (simp add: list_all_iff)
qed

lemma propagatesD:
  assumes "propagates t out"
  shows "\<exists>new. fst out = t @ new
           \<and> (\<forall>cr\<in>set (butlast new). \<not> isl (snd cr))
           \<and> (new \<noteq> [] \<longrightarrow> (\<forall>e. snd (last new) = Inl e \<longrightarrow> snd out = Inl e))"
proof -
  let ?new = "drop (length t) (fst out)"
  from assms have pre: "take (length t) (fst out) = t"
    and ok: "list_all (\<lambda>cr. \<not> isl (snd cr)) (butlast ?new)"
    and lst: "?new = [] \<or> (case snd (last ?new) of Inl e \<Rightarrow> snd out = Inl e | Inr v \<Rightarrow> True)"
    by (simp_all add: propagates_def Let_def)
  have a: "fst out = t @ ?new"
    using pre append_take_drop_id[of "length t" "fst out"] by simp
  have b: "\<forall>cr\<in>set (butlast ?new). \<not> isl (snd cr)"
    using ok by (simp add: list_all_iff)
  have c: "?new \<noteq> [] \<longrightarrow> (\<forall>e. snd (last ?new) = Inl e \<longrightarrow> snd out = Inl e)"
  proof (intro impI allI)
    fix e
    assume ne: "?new \<noteq> []" and l: "snd (last ?new) = Inl e"
    from lst ne have "case snd (last ?new) of Inl e \<Rightarrow> snd out = Inl e | Inr v \<Rightarrow> True"
      by blast
    then show "snd out = Inl e" unfolding l by simp
  qed
  show ?thesis
    by (rule exI[of _ ?new]) (intro conjI a b c)
qed

lemma propagates_perform: "propagates t (perform env c t)"
  by (rule propagatesI[where new="[(c, env t c)]"]) (simp_all add: perform_def)

lemma propagates_return: "propagates t (return a t)"
  by (rule propagatesI[where new="[]"]) (simp_all add: return_def)

lemma propagates_lift: "propagates t (lift x t)"
  by (rule propagatesI[where new="[]"]) (simp_all add: lift_def)

lemma propagates_same: "propagates t (t, x)"
  by (rule propagatesI[where new="[]"]) simp_all

lemma propagates_andthen:
  assumes m: "propagates t (m t)"
      and f: "\<And>a t'. propagates t' (f a t')"
  shows "propagates t (andthen m f t)"
proof -
  obtain t1 r1 where mt: "m t = (t1, r1)" by (cases "m t")
  from propagatesD[OF m[unfolded mt]] obtain n1 where n1': "fst (t1, r1) = t @ n1"
    and ok1: "\<forall>cr\<in>set (butlast n1). \<not> isl (snd cr)"
    and e1': "n1 \<noteq> [] \<longrightarrow> (\<forall>e. snd (last n1) = Inl e \<longrightarrow> snd (t1, r1) = Inl e)"
    by blast
  have n1: "t1 = t @ n1" using n1' by simp
  have e1: "n1 \<noteq> [] \<longrightarrow> (\<forall>e. snd (last n1) = Inl e \<longrightarrow> r1 = Inl e)"
    using e1' by simp
  show ?thesis
  proof (cases r1)
    case (Inl e)
    then have run: "andthen m f t = (t1, Inl e)" using mt by (simp add: andthen_def)
    show ?thesis
      unfolding run
    proof (rule propagatesI[where new=n1])
      show "fst (t1, Inl e :: error + 'b) = t @ n1" using n1 by simp
      show "\<forall>cr\<in>set (butlast n1). \<not> isl (snd cr)" by (rule ok1)
      show "n1 \<noteq> [] \<longrightarrow> (\<forall>e'. snd (last n1) = Inl e' \<longrightarrow> snd (t1, Inl e :: error + 'b) = Inl e')"
        using e1 Inl by simp
    qed
  next
    case (Inr a)
    then have run: "andthen m f t = f a t1" using mt by (simp add: andthen_def)
    from propagatesD[OF f[of t1 a]] obtain n2 where n2: "fst (f a t1) = t1 @ n2"
      and ok2: "\<forall>cr\<in>set (butlast n2). \<not> isl (snd cr)"
      and e2: "n2 \<noteq> [] \<longrightarrow> (\<forall>e. snd (last n2) = Inl e \<longrightarrow> snd (f a t1) = Inl e)"
      by blast
    have last1: "\<not> isl (snd (last n1))" if "n1 \<noteq> []"
    proof (cases "snd (last n1)")
      case (Inl e)
      with e1 that have "r1 = Inl e" by simp
      with Inr show ?thesis by simp
    next
      case (Inr v)
      then show ?thesis by simp
    qed
    have all1: "\<forall>cr\<in>set n1. \<not> isl (snd cr)"
    proof (cases "n1 = []")
      case True
      then show ?thesis by simp
    next
      case False
      then have "set (butlast n1 @ [last n1]) = set n1" by simp
      then have "set n1 = set (butlast n1) \<union> {last n1}" by simp
      then show ?thesis using ok1 last1[OF False] by simp
    qed
    show ?thesis
      unfolding run
    proof (rule propagatesI[where new="n1 @ n2"])
      show "fst (f a t1) = t @ n1 @ n2" using n1 n2 by simp
      show "\<forall>cr\<in>set (butlast (n1 @ n2)). \<not> isl (snd cr)"
      proof (cases "n2 = []")
        case True
        then show ?thesis using ok1 by simp
      next
        case False
        then show ?thesis using all1 ok2 by (simp add: butlast_append ball_Un)
      qed
      show "n1 @ n2 \<noteq> [] \<longrightarrow> (\<forall>e. snd (last (n1 @ n2)) = Inl e \<longrightarrow> snd (f a t1) = Inl e)"
      proof (cases "n2 = []")
        case True
        show ?thesis
        proof (intro impI allI)
          fix e
          assume ne: "n1 @ n2 \<noteq> []" and l: "snd (last (n1 @ n2)) = Inl e"
          from ne True have "n1 \<noteq> []" by simp
          from last1[OF this] l True show "snd (f a t1) = Inl e" by simp
        qed
      next
        case False
        then show ?thesis using e2 by simp
      qed
    qed
  qed
qed

lemma partition_dot_shorter:
  "CHR ''.'' \<in> set source \<Longrightarrow> length (snd (partition_dot source)) < length source"
proof -
  assume dot: "CHR ''.'' \<in> set source"
  then have "dropWhile (\<lambda>c. c \<noteq> CHR ''.'') source \<noteq> []"
    by (simp add: dropWhile_eq_Nil_conv)
  then have "length (drop 1 (dropWhile (\<lambda>c. c \<noteq> CHR ''.'') source))
               < length (dropWhile (\<lambda>c. c \<noteq> CHR ''.'') source)"
    by (cases "dropWhile (\<lambda>c. c \<noteq> CHR ''.'') source") simp_all
  also have "\<dots> \<le> length source" by (rule length_dropWhile_le)
  finally show ?thesis by (simp add: partition_dot_def)
qed

lemma walk_step:
  "CHR ''.'' \<in> set source \<Longrightarrow> dict_getitem d (fst (partition_dot source)) = Inr v' \<Longrightarrow>
     walk env path (VDict d) ins source t =
       andthen (perform env (Getattr ins (fst (partition_dot source))))
         (\<lambda>ins'. walk env (path @ [(fst (partition_dot source), d)]) v' ins'
                    (snd (partition_dot source))) t"
  by (subst walk.simps) (simp add: andthen_def)

lemma walk_stop:
  "CHR ''.'' \<notin> set source \<Longrightarrow> walk env path v ins source t = (t, Inr (path, v, ins))"
  by (subst walk.simps) simp

lemma walk_missing:
  "CHR ''.'' \<in> set source \<Longrightarrow> dict_getitem d (fst (partition_dot source)) = Inl e \<Longrightarrow>
     walk env path (VDict d) ins source t = (t, Inl e)"
  by (subst walk.simps) simp

lemma walk_not_dict:
  "CHR ''.'' \<in> set source \<Longrightarrow> \<forall>d. v \<noteq> VDict d \<Longrightarrow>
     walk env path v ins source t = (t, Inl TypeError)"
  by (subst walk.simps) (cases v; simp)

lemma propagates_walk: "propagates t (walk env path v ins source t)"
proof (induction "length source" arbitrary: path v ins source t rule: less_induct)
  case less
  show ?case
  proof (cases "CHR ''.'' \<in> set source")
    case False
    then show ?thesis by (simp add: walk_stop propagates_same)
  next
    case dot: True
    show ?thesis
    proof (cases "\<exists>d. v = VDict d")
      case False
      then show ?thesis using dot by (simp add: walk_not_dict propagates_same)
    next
      case True
      then obtain d where v: "v = VDict d" by blast
      show ?thesis
      proof (cases "dict_getitem d (fst (partition_dot source))")
        case (Inl e)
        then show ?thesis using dot v by (simp add: walk_missing propagates_same)
      next
        case (Inr v')
        show ?thesis
          unfolding v walk_step[OF dot Inr]
          by (rule propagates_andthen[OF propagates_perform])
             (rule less[OF partition_dot_shorter[OF dot]])
      qed
    qed
  qed
qed

lemma propagates_setattr_all: "propagates t (setattr_all env inst many t)"
proof (induction many arbitrary: t)
  case Nil
  then show ?case by (simp add: propagates_return)
next
  case (Cons nv many)
  obtain name v where nv: "nv = (name, v)" by (cases nv)
  show ?case
    unfolding nv setattr_all.simps
    by (rule propagates_andthen[OF propagates_perform]) (rule Cons)
qed

lemma propagates_set_all: "propagates t (set_all env inst many t)"
proof (induction many arbitrary: t)
  case Nil
  then show ?case by (simp add: propagates_return)
next
  case (Cons nv many)
  obtain name v where nv: "nv = (name, v)" by (cases nv)
  show ?case
    unfolding nv set_all.simps
    by (rule propagates_andthen[OF propagates_perform])
       (rule propagates_andthen[OF propagates_perform], rule Cons)
qed

lemma propagates_create: "propagates t (create env s validated_data t)"
proof -
  obtain d m where p: "partition_fields (self_fields s) validated_data [] [] = (d, m)"
    by (cases "partition_fields (self_fields s) validated_data [] []")
  show ?thesis
    unfolding create_def p prod.case
    by (intro propagates_andthen propagates_perform propagates_setattr_all propagates_return)
qed

lemma propagates_create_ext: "propagates t (create_ext env s validated_data t)"
proof -
  obtain d m where p: "partition_fields (self_fields s) validated_data [] [] = (d, m)"
    by (cases "partition_fields (self_fields s) validated_data [] []")
  show ?thesis
    unfolding create_ext_def p prod.case
    by (intro propagates_andthen propagates_perform propagates_set_all propagates_return)
qed

lemma propagates_inject_id: "propagates t (inject_id env s id_attr data ret t)"
  unfolding inject_id_def
  by (cases "map_of (self_fields s) id_attr")
     (simp_all add: propagates_lift propagates_andthen propagates_perform)

lemma propagates_nested_save: "propagates t (nested_save env inst data partial t)"
  unfolding nested_save_def
  by (intro propagates_andthen propagates_perform)

lemma propagates_to_internal_value: "propagates t (to_internal_value env s data t)"
  unfolding to_internal_value_def Let_def
  by (auto intro!: propagates_andthen propagates_perform propagates_lift propagates_return
        propagates_inject_id)

lemma propagates_to_internal_value_ext: "propagates t (to_internal_value_ext env s data t)"
  unfolding to_internal_value_ext_def Let_def
  by (auto intro!: propagates_andthen propagates_perform propagates_lift propagates_return
        propagates_inject_id propagates_nested_save)

lemma propagates_assign_ext: "propagates t (assign_ext env ins name v t)"
  unfolding assign_ext_def
  by (auto intro!: propagates_andthen propagates_perform propagates_lift)

lemma propagates_update_field: "propagates t (update_field env inst nf validated_data t)"
proof -
  obtain name f where nf: "nf = (name, f)" by (cases nf)
  show ?thesis
    unfolding update_field_def nf prod.case
    by (auto intro!: propagates_andthen propagates_perform propagates_lift propagates_return
          propagates_walk)
qed

lemma propagates_update_field_ext: "propagates t (update_field_ext env inst nf validated_data t)"
proof -
  obtain name f where nf: "nf = (name, f)" by (cases nf)
  show ?thesis
    unfolding update_field_ext_def nf prod.case
    by (auto intro!: propagates_andthen propagates_perform propagates_lift propagates_return
          propagates_walk propagates_assign_ext)
qed

lemma propagates_update_fields:
  assumes "\<And>nf vd t. propagates t (body inst nf vd t)"
  shows "propagates t (update_fields body inst flds validated_data t)"
proof (induction flds arbitrary: validated_data t)
  case Nil
  then show ?case by (simp add: propagates_return)
next
  case (Cons nf flds)
  show ?case
    unfolding update_fields.simps
    by (rule propagates_andthen[OF assms]) (rule Cons)
qed

lemma propagates_update: "propagates t (update env s inst validated_data t)"
  unfolding update_def
  by (intro propagates_andthen propagates_update_fields propagates_update_field propagates_perform)

lemma propagates_update_ext: "propagates t (update_ext env s inst validated_data t)"
  unfolding update_ext_def
  by (intro propagates_andthen propagates_update_fields propagates_update_field_ext propagates_perform)

lemma propagates_update_loop:
  "propagates t (update_loop env id_attr by_id updated objs t)"
proof (induction objs arbitrary: updated t)
  case Nil
  then show ?case by (simp add: propagates_return)
next
  case (Cons obj objs)
  show ?case
    unfolding update_loop.simps
    by (intro propagates_andthen propagates_lift propagates_perform Cons)
qed

lemma propagates_bulk_update:
  "propagates t (BulkListSerializer_update env meta queryset all_validated_data t)"
  unfolding BulkListSerializer_update_def Let_def
  by (auto intro!: propagates_andthen propagates_lift propagates_perform propagates_update_loop)

text \<open>
  Claim C8. In \<^verbatim>\<open>to_internal_value\<close>, \<^verbatim>\<open>create\<close> and \<^verbatim>\<open>update\<close> of both variants,
  and in the bulk update, whatever the collaborators do: when a call to a collaborator
  raises, no further call is made and the method ends with that exception. The calls are
  all the calls of the model: the queries of the bulk update (\<^verbatim>\<open>filter\<close>, \<^verbatim>\<open>count\<close>, the
  iteration, the read of the lookup attribute) as well as the store's \<^verbatim>\<open>get\<close>,
  \<^verbatim>\<open>create\<close> and \<^verbatim>\<open>save\<close>, the attribute accesses and the calls to the framework and
  to the child serializer. In particular the exception of the store's \<^verbatim>\<open>get\<close> for an
  identifier it does not have is the result of the nested \<^verbatim>\<open>to_internal_value\<close>, after
  that one call.
\<close>

theorem store_errors_propagate:
  "propagates t (to_internal_value env s data t)
   \<and> propagates t (to_internal_value_ext env s data t)
   \<and> propagates t (create env s validated_data t)
   \<and> propagates t (create_ext env s validated_data t)
   \<and> propagates t (update env s inst validated_data t)
   \<and> propagates t (update_ext env s inst validated_data t)
   \<and> propagates t (BulkListSerializer_update env meta queryset all_validated_data t)
   \<and> (\<not> is_top s \<and> map_of data (lookup_field (update_lookup_field s)) = Some v
        \<and> env t (ObjectsGet (lookup_field (update_lookup_field s)) v) = Inl e
      \<longrightarrow> to_internal_value env s data t
            = (t @ [(ObjectsGet (lookup_field (update_lookup_field s)) v, Inl e)], Inl e)
        \<and> to_internal_value_ext env s data t
            = (t @ [(ObjectsGet (lookup_field (update_lookup_field s)) v, Inl e)], Inl e))"
proof -
  have lookup: "to_internal_value env s data t
            = (t @ [(ObjectsGet (lookup_field (update_lookup_field s)) v, Inl e)], Inl e)
        \<and> to_internal_value_ext env s data t
            = (t @ [(ObjectsGet (lookup_field (update_lookup_field s)) v, Inl e)], Inl e)"
    if "\<not> is_top s" "map_of data (lookup_field (update_lookup_field s)) = Some v"
       "env t (ObjectsGet (lookup_field (update_lookup_field s)) v) = Inl e"
    using that
    by (simp add: to_internal_value_def to_internal_value_ext_def Let_def dict_contains_def
          dict_getitem_def andthen_def lift_def perform_def)
  show ?thesis
    using lookup
    by (simp only: propagates_to_internal_value propagates_to_internal_value_ext
          propagates_create propagates_create_ext propagates_update propagates_update_ext
          propagates_bulk_update simp_thms) blast
qed

text \<open>
  A lookup that finds nothing, a \<^verbatim>\<open>save\<close> that fails after a successful
  \<^verbatim>\<open>create\<close>, and a \<^verbatim>\<open>count()\<close> that the database refuses.
\<close>

theorem store_errors_propagate_witness:
  "to_internal_value failing_store nested_serializer [(''id'', VInt 99)] []
     = ([(ObjectsGet ''id'' (VInt 99), Inl DoesNotExist)], Inl DoesNotExist)
   \<and> to_internal_value_ext failing_store nested_serializer [(''id'', VInt 99)] []
     = ([(ObjectsGet ''id'' (VInt 99), Inl DoesNotExist)], Inl DoesNotExist)
   \<and> create failing_store example_serializer [(''name'', VStr ''a'')] []
     = ([(ObjectsCreate [(''name'', VStr ''a'')], Inr (VObj 7)),
         (Save (VObj 7), Inl (Raised ''IntegrityError''))],
        Inl (Raised ''IntegrityError''))
   \<and> BulkListSerializer_update refusing_store None (VObj 0)
         [[(''id'', VInt 1), (''name'', VStr ''a'')]] []
     = ([(QuerysetFilter (VObj 0) ''id__in'' [1], Inr (VList [VInt 1])),
         (QuerysetCount (VList [VInt 1]), Inl OverflowError)],
        Inl OverflowError)
   \<and> propagates [] (create failing_store example_serializer [(''name'', VStr ''a'')] [])
   \<and> propagates [] (BulkListSerializer_update refusing_store None (VObj 0)
                       [[(''id'', VInt 1), (''name'', VStr ''a'')]] [])"
proof -
  have ev: "to_internal_value failing_store nested_serializer [(''id'', VInt 99)] []
     = ([(ObjectsGet ''id'' (VInt 99), Inl DoesNotExist)], Inl DoesNotExist)
   \<and> to_internal_value_ext failing_store nested_serializer [(''id'', VInt 99)] []
     = ([(ObjectsGet ''id'' (VInt 99), Inl DoesNotExist)], Inl DoesNotExist)
   \<and> create failing_store example_serializer [(''name'', VStr ''a'')] []
     = ([(ObjectsCreate [(''name'', VStr ''a'')], Inr (VObj 7)),
         (Save (VObj 7), Inl (Raised ''IntegrityError''))],
        Inl (Raised ''IntegrityError''))"
    by (simp add: to_internal_value_def to_internal_value_ext_def create_def Let_def is_top_def
          nested_serializer_def example_serializer_def lookup_field_def dict_contains_def
          dict_getitem_def is_plural_def andthen_def lift_def perform_def return_def
          failing_store_def)
  have bulk: "BulkListSerializer_update refusing_store None (VObj 0)
         [[(''id'', VInt 1), (''name'', VStr ''a'')]] []
     = ([(QuerysetFilter (VObj 0) ''id__in'' [1], Inr (VList [VInt 1])),
         (QuerysetCount (VList [VInt 1]), Inl OverflowError)],
        Inl OverflowError)"
    by (rule bulk_update_refusing_store)
  have p: "propagates [] (create failing_store example_serializer [(''name'', VStr ''a'')] [])
         \<and> propagates [] (BulkListSerializer_update refusing_store None (VObj 0)
                             [[(''id'', VInt 1), (''name'', VStr ''a'')]] [])"
    using store_errors_propagate[where t="[]" and env=failing_store and s=example_serializer
            and validated_data="[(''name'', VStr ''a'')]"]
          store_errors_propagate[where t="[]" and env=refusing_store and meta=None
            and queryset="VObj 0" and all_validated_data="[[(''id'', VInt 1), (''name'', VStr ''a'')]]"]
    by blast
  show ?thesis
    using ev bulk p by (simp only: simp_thms)
qed

subsection \<open>Nested update\<close>























end
